theory Spec2Isabelle
  imports Complex_Main "HOL-Library.AList" "HOL-Library.Multiset"
begin

section \<open>The review merger (MERGER.py): data model\<close>

text \<open>
  The class \<^verbatim>\<open>WalmartReviewMerger\<close> is embedded with explicit state: the merger object
  is a record that each method takes and returns, a raised exception is the \<open>Inl\<close> of
  a sum, and a loop is a fold that stops at the first exception. The file system is a
  function from a path to what \<^verbatim>\<open>json.load\<close> returns for it (\<open>None\<close> when opening or
  parsing raises).

  Values are those of \<^verbatim>\<open>json.load\<close>. A Python float is modelled by the exact rational
  it denotes, or one of the three special values; the rounding of float arithmetic is
  not modelled. A Python dict is an association list in insertion order, read with
  \<open>map_of\<close> and written with \<open>AList.update\<close> (an existing key keeps its place, a new key
  goes to the end). Strings are lists of characters, and the character classes
  (whitespace, digits, letters and their case) are those of Python on ASCII. Paths are
  POSIX paths. What the methods print, and the \<^verbatim>\<open>merged_at\<close> time stamp, are left out;
  the printed counters are kept.
\<close>

datatype pyfloat = Fin rat | PosInf | NegInf | NaN

datatype json =
    JNull
  | JBool bool
  | JInt int
  | JFloat pyfloat
  | JStr string
  | JArr "json list"
  | JObj "(string \<times> json) list"

type_synonym dict = "(string \<times> json) list"

datatype py_error = TypeError | ValueError | AttributeError | OverflowError | KeyError

text \<open>
  Two builtins are taken as parameters instead of being re-implemented: \<^verbatim>\<open>str()\<close> of a
  float, list or dict, and \<^verbatim>\<open>float()\<close> of a string (\<open>None\<close> is its ValueError).
\<close>

record builtins =
  repr :: "json \<Rightarrow> string"
  float_of_str :: "string \<Rightarrow> pyfloat option"

definition ebind :: "'e + 'a \<Rightarrow> ('a \<Rightarrow> 'e + 'b) \<Rightarrow> 'e + 'b" where
  "ebind m f = (case m of Inl e \<Rightarrow> Inl e | Inr x \<Rightarrow> f x)"

subsection \<open>Python builtins on values\<close>

fun truthy :: "json \<Rightarrow> bool" where
  "truthy JNull = False"
| "truthy (JBool b) = b"
| "truthy (JInt n) = (n \<noteq> 0)"
| "truthy (JFloat f) = (f \<noteq> Fin 0)"
| "truthy (JStr s) = (s \<noteq> [])"
| "truthy (JArr xs) = (xs \<noteq> [])"
| "truthy (JObj d) = (d \<noteq> [])"

definition digit_char :: "nat \<Rightarrow> char" where
  "digit_char n = ''0123456789'' ! n"

fun nat_digits :: "nat \<Rightarrow> string" where
  "nat_digits n = (if n < 10 then [digit_char n] else nat_digits (n div 10) @ [digit_char (n mod 10)])"

declare nat_digits.simps [simp del]

definition int_str :: "int \<Rightarrow> string" where
  "int_str i = (if i < 0 then CHR ''-'' # nat_digits (nat (- i)) else nat_digits (nat i))"

fun py_str :: "builtins \<Rightarrow> json \<Rightarrow> string" where
  "py_str B (JStr s) = s"
| "py_str B JNull = ''None''"
| "py_str B (JBool b) = (if b then ''True'' else ''False'')"
| "py_str B (JInt i) = int_str i"
| "py_str B v = repr B v"

definition is_space :: "char \<Rightarrow> bool" where
  "is_space c = (c \<in> set [CHR 0x09, CHR 0x0A, CHR 0x0B, CHR 0x0C, CHR 0x0D,
                           CHR 0x1C, CHR 0x1D, CHR 0x1E, CHR 0x1F, CHR 0x20])"

definition is_digit :: "char \<Rightarrow> bool" where
  "is_digit c = (c \<in> set ''0123456789'')"

definition uppers :: string where "uppers = ''ABCDEFGHIJKLMNOPQRSTUVWXYZ''"
definition lowers :: string where "lowers = ''abcdefghijklmnopqrstuvwxyz''"

definition is_cased :: "char \<Rightarrow> bool" where
  "is_cased c = (c \<in> set uppers \<or> c \<in> set lowers)"

definition lower_char :: "char \<Rightarrow> char" where
  "lower_char c = (case map_of (zip uppers lowers) c of Some d \<Rightarrow> d | None \<Rightarrow> c)"

definition upper_char :: "char \<Rightarrow> char" where
  "upper_char c = (case map_of (zip lowers uppers) c of Some d \<Rightarrow> d | None \<Rightarrow> c)"

definition lower :: "string \<Rightarrow> string" where
  "lower s = map lower_char s"

definition upper :: "string \<Rightarrow> string" where
  "upper s = map upper_char s"

definition strip :: "string \<Rightarrow> string" where
  "strip s = rev (dropWhile is_space (rev (dropWhile is_space s)))"

text \<open>\<^verbatim>\<open>str.title()\<close>: a letter after a cased character is lowered, any other is raised.\<close>

fun title_from :: "bool \<Rightarrow> string \<Rightarrow> string" where
  "title_from prev [] = []"
| "title_from prev (c # cs) =
     (if prev then lower_char c else upper_char c) # title_from (is_cased c) cs"

definition title :: "string \<Rightarrow> string" where
  "title s = title_from False s"

definition replace_char :: "char \<Rightarrow> char \<Rightarrow> string \<Rightarrow> string" where
  "replace_char a b s = map (\<lambda>c. if c = a then b else c) s"

fun is_substring :: "string \<Rightarrow> string \<Rightarrow> bool" where
  "is_substring k [] = (k = [])"
| "is_substring k (c # cs) = (if take (length k) (c # cs) = k then True else is_substring k cs)"

text \<open>The operator \<^verbatim>\<open>k in v\<close> for a string \<open>k\<close>, and \<^verbatim>\<open>v[k]\<close>, \<^verbatim>\<open>v[k] = x\<close>.\<close>

fun py_contains :: "string \<Rightarrow> json \<Rightarrow> py_error + bool" where
  "py_contains k (JObj d) = Inr (map_of d k \<noteq> None)"
| "py_contains k (JArr xs) = Inr (JStr k \<in> set xs)"
| "py_contains k (JStr s) = Inr (is_substring k s)"
| "py_contains k v = Inl TypeError"

fun py_getitem :: "json \<Rightarrow> string \<Rightarrow> py_error + json" where
  "py_getitem (JObj d) k = (case map_of d k of None \<Rightarrow> Inl KeyError | Some v \<Rightarrow> Inr v)"
| "py_getitem v k = Inl TypeError"

definition dict_set :: "dict \<Rightarrow> string \<Rightarrow> json \<Rightarrow> dict" where
  "dict_set d k v = AList.update k v d"

fun py_setitem :: "json \<Rightarrow> string \<Rightarrow> json \<Rightarrow> py_error + json" where
  "py_setitem (JObj d) k v = Inr (JObj (dict_set d k v))"
| "py_setitem r k v = Inl TypeError"

text \<open>\<^verbatim>\<open>list.extend(v)\<close>: the elements a value yields when iterated.\<close>

fun py_iter :: "json \<Rightarrow> py_error + json list" where
  "py_iter (JArr xs) = Inr xs"
| "py_iter (JStr s) = Inr (map (\<lambda>c. JStr [c]) s)"
| "py_iter (JObj d) = Inr (map (\<lambda>kv. JStr (fst kv)) d)"
| "py_iter v = Inl TypeError"

subsection \<open>File names\<close>

definition basename :: "string \<Rightarrow> string" where
  "basename p = rev (takeWhile (\<lambda>c. c \<noteq> CHR ''/'') (rev p))"

text \<open>
  \<^verbatim>\<open>os.path.splitext(b)[0]\<close> for a name without separators: cut at the last dot,
  unless only dots come before it.
\<close>

definition splitext_root :: "string \<Rightarrow> string" where
  "splitext_root b =
     (let ext = takeWhile (\<lambda>c. c \<noteq> CHR ''.'') (rev b);
          root = take (length b - length ext - 1) b
      in if length ext < length b \<and> list_ex (\<lambda>c. c \<noteq> CHR ''.'') root then root else b)"

text \<open>\<^verbatim>\<open>re.search(r'_(\d{8,})_', s)\<close>: the leftmost underscore followed by a maximal run
  of at least eight digits and an underscore; the result is group 1.\<close>

fun search_product_id :: "string \<Rightarrow> string option" where
  "search_product_id [] = None"
| "search_product_id (c # cs) =
     (if c = CHR ''_'' \<and> 8 \<le> length (takeWhile is_digit cs)
         \<and> take 1 (dropWhile is_digit cs) = ''_''
      then Some (takeWhile is_digit cs)
      else search_product_id cs)"

text \<open>\<^verbatim>\<open>re.sub(r'walmart_reviews_?', '', s)\<close>.\<close>

function remove_walmart_reviews :: "string \<Rightarrow> string" where
  "remove_walmart_reviews [] = []"
| "remove_walmart_reviews (c # cs) =
     (if take 15 (c # cs) = ''walmart_reviews''
      then (if take 1 (drop 15 (c # cs)) = ''_''
            then remove_walmart_reviews (drop 16 (c # cs))
            else remove_walmart_reviews (drop 15 (c # cs)))
      else c # remove_walmart_reviews cs)"
  by pat_completeness auto
termination
  by (relation "measure length") auto

text \<open>\<^verbatim>\<open>re.sub(r'_\d{8}_\d{6}$', '', s)\<close>; \<open>$\<close> also matches before a final newline.\<close>

definition is_timestamp :: "string \<Rightarrow> bool" where
  "is_timestamp t =
     (length t = 16 \<and> take 1 t = ''_'' \<and> list_all is_digit (take 8 (drop 1 t))
      \<and> take 1 (drop 9 t) = ''_'' \<and> list_all is_digit (drop 10 t))"

definition remove_timestamp :: "string \<Rightarrow> string" where
  "remove_timestamp s =
     (let n = length s in
      if is_timestamp (drop (n - 16) s) then take (n - 16) s
      else if 17 \<le> n \<and> drop (n - 1) s = [CHR 0x0A] \<and> is_timestamp (take 16 (drop (n - 17) s))
      then take (n - 17) s @ [CHR 0x0A]
      else s)"

section \<open>Format normalisation and identity resolution\<close>

record product_info =
  pi_product_id :: "string option"
  pi_product_name :: json
  pi_product_url :: json
  pi_source_file :: string

fun mapM :: "('a \<Rightarrow> 'e + 'b) \<Rightarrow> 'a list \<Rightarrow> 'e + 'b list" where
  "mapM f [] = Inr []"
| "mapM f (x # xs) = ebind (f x) (\<lambda>y. ebind (mapM f xs) (\<lambda>ys. Inr (y # ys)))"

fun foldM :: "('s \<Rightarrow> 'a \<Rightarrow> 'e + 's) \<Rightarrow> 's \<Rightarrow> 'a list \<Rightarrow> 'e + 's" where
  "foldM f s [] = Inr s"
| "foldM f s (x # xs) = ebind (f s x) (\<lambda>s'. foldM f s' xs)"

definition get_or :: "dict \<Rightarrow> string \<Rightarrow> json \<Rightarrow> json" where
  "get_or d k dflt = (case map_of d k of None \<Rightarrow> dflt | Some v \<Rightarrow> v)"

definition str_truthy :: "string option \<Rightarrow> bool" where
  "str_truthy s = (case s of None \<Rightarrow> False | Some t \<Rightarrow> t \<noteq> [])"

text \<open>Product-level metadata of the document (lines 33-47).\<close>

definition document_info :: "builtins \<Rightarrow> json \<Rightarrow> string \<Rightarrow> product_info" where
  "document_info B data source_file =
     (let d = (case data of JObj kvs \<Rightarrow> kvs | _ \<Rightarrow> []) in
      \<lparr> pi_product_id = map_option (py_str B) (map_of d ''product_id''),
        pi_product_name = get_or d ''product_name'' JNull,
        pi_product_url = get_or d ''product_url'' JNull,
        pi_source_file = basename source_file \<rparr>)"

text \<open>Case 1, one review of one product: the two \<^verbatim>\<open>if k not in review and k in product\<close>.\<close>

definition inherit_field :: "string \<Rightarrow> json \<Rightarrow> json \<Rightarrow> py_error + json" where
  "inherit_field k product review =
     ebind (py_contains k review) (\<lambda>in_review.
       if in_review then Inr review
       else ebind (py_contains k product) (\<lambda>in_product.
         if in_product then ebind (py_getitem product k) (\<lambda>v. py_setitem review k v)
         else Inr review))"

definition product_reviews :: "json \<Rightarrow> py_error + json list" where
  "product_reviews product =
     ebind (py_contains ''reviews'' product) (\<lambda>has.
       if has then
         ebind (py_getitem product ''reviews'') (\<lambda>rs.
           case rs of
             JArr xs \<Rightarrow>
               mapM (\<lambda>review. ebind (inherit_field ''product_id'' product review)
                                    (inherit_field ''product_name'' product)) xs
           | _ \<Rightarrow> Inr [])
       else Inr [])"

text \<open>Case 2 with sentiment groups: the three groups, then \<^verbatim>\<open>all\<close>, each extended.\<close>

definition grouped_reviews :: "dict \<Rightarrow> py_error + json list" where
  "grouped_reviews g =
     ebind (mapM (\<lambda>k. case map_of g k of None \<Rightarrow> Inr [] | Some v \<Rightarrow> py_iter v)
                 [''positive'', ''negative'', ''neutral'', ''all''])
           (\<lambda>xss. Inr (concat xss))"

definition raw_reviews :: "json \<Rightarrow> py_error + json list" where
  "raw_reviews data =
     (case data of
        JObj d \<Rightarrow>
          (case map_of d ''products'' of
             Some (JArr ps) \<Rightarrow> ebind (mapM product_reviews ps) (\<lambda>xss. Inr (concat xss))
           | _ \<Rightarrow>
             (case map_of d ''reviews'' of
                Some (JArr rs) \<Rightarrow> Inr rs
              | Some (JObj g) \<Rightarrow> grouped_reviews g
              | _ \<Rightarrow> Inr []))
      | JArr rs \<Rightarrow> Inr rs
      | _ \<Rightarrow> Inr [])"

text \<open>The post-processing loop (lines 78-84): every review gets its \<^verbatim>\<open>source_file\<close>,
  and the first truthy \<^verbatim>\<open>product_id\<close> of a review fills a missing document id.\<close>

fun attach_source ::
  "builtins \<Rightarrow> string \<Rightarrow> json list \<Rightarrow> string option \<Rightarrow> py_error + (dict list \<times> string option)" where
  "attach_source B bn [] pid = Inr ([], pid)"
| "attach_source B bn (JObj d # rest) pid =
     (let d' = dict_set d ''source_file'' (JStr bn);
          pid' = (case map_of d' ''product_id'' of
                    None \<Rightarrow> pid
                  | Some v \<Rightarrow> if truthy v \<and> \<not> str_truthy pid then Some (py_str B v) else pid)
      in ebind (attach_source B bn rest pid') (\<lambda>res. Inr (d' # fst res, snd res)))"
| "attach_source B bn (v # rest) pid = Inl TypeError"

definition clean_name :: "string \<Rightarrow> string" where
  "clean_name source_file =
     remove_timestamp (remove_walmart_reviews (splitext_root (basename source_file)))"

text \<open>The fallback of lines 86-101.\<close>

definition resolve_identity :: "string \<Rightarrow> product_info \<Rightarrow> product_info" where
  "resolve_identity source_file pinfo =
     (if str_truthy (pi_product_id pinfo) then pinfo
      else case search_product_id source_file of
             Some m \<Rightarrow> pinfo\<lparr>pi_product_id := Some m\<rparr>
           | None \<Rightarrow>
               pinfo\<lparr>pi_product_id := Some (''GROUP_'' @ clean_name source_file),
                     pi_product_name :=
                       (if truthy (pi_product_name pinfo) then pi_product_name pinfo
                        else JStr (title (replace_char (CHR ''_'') (CHR '' '')
                                                       (clean_name source_file))))\<rparr>)"

definition extract_reviews_from_json ::
  "builtins \<Rightarrow> json \<Rightarrow> string \<Rightarrow> py_error + (dict list \<times> product_info)" where
  "extract_reviews_from_json B data source_file =
     (let pinfo = document_info B data source_file in
      ebind (raw_reviews data) (\<lambda>rs.
      ebind (attach_source B (basename source_file) rs (pi_product_id pinfo)) (\<lambda>res.
        Inr (fst res, resolve_identity source_file (pinfo\<lparr>pi_product_id := snd res\<rparr>)))))"

section \<open>The merger\<close>

record product =
  product_id :: "string option"
  product_name :: json
  product_url :: json
  source_files :: "string list"
  reviews :: "dict list"

record merger =
  all_reviews :: "dict list"
  all_products :: "product list"
  seen_review_texts :: "string set"
  product_map :: "(string option \<times> product) list"

definition init_merger :: merger where
  "init_merger = \<lparr> all_reviews = [], all_products = [], seen_review_texts = {}, product_map = [] \<rparr>"

text \<open>The counters of one file, and those of the run (printed in the summary).\<close>

record tally =
  kept_count :: nat
  duplicate_count :: nat
  filtered_count :: nat

record totals =
  total_reviews_loaded :: nat
  total_duplicates_removed :: nat
  total_filtered_out :: nat

definition load_json_file :: "(string \<Rightarrow> json option) \<Rightarrow> string \<Rightarrow> json" where
  "load_json_file fs filepath = (case fs filepath of None \<Rightarrow> JNull | Some data \<Rightarrow> data)"

definition normalized :: "builtins \<Rightarrow> json \<Rightarrow> string" where
  "normalized B review_text = lower (strip (py_str B review_text))"

definition is_duplicate_review :: "builtins \<Rightarrow> merger \<Rightarrow> json \<Rightarrow> bool \<times> merger" where
  "is_duplicate_review B self review_text =
     (if \<not> truthy review_text then (True, self)
      else if length (py_str B review_text) < 10 then (True, self)
      else if normalized B review_text \<in> seen_review_texts self then (True, self)
      else (False, self\<lparr>seen_review_texts := insert (normalized B review_text) (seen_review_texts self)\<rparr>))"

subsection \<open>Floats\<close>

text \<open>\<^verbatim>\<open>float(v)\<close>. An int whose nearest double would be \<open>2^1024\<close> raises OverflowError.\<close>

fun py_float :: "builtins \<Rightarrow> json \<Rightarrow> py_error + pyfloat" where
  "py_float B (JFloat f) = Inr f"
| "py_float B (JInt n) =
     (if \<bar>n\<bar> < 2 ^ 1024 - 2 ^ 970 then Inr (Fin (of_int n)) else Inl OverflowError)"
| "py_float B (JBool b) = Inr (Fin (if b then 1 else 0))"
| "py_float B (JStr s) = (case float_of_str B s of None \<Rightarrow> Inl ValueError | Some f \<Rightarrow> Inr f)"
| "py_float B v = Inl TypeError"

fun fl_less :: "pyfloat \<Rightarrow> pyfloat \<Rightarrow> bool" where
  "fl_less NaN y = False"
| "fl_less x NaN = False"
| "fl_less (Fin a) (Fin b) = (a < b)"
| "fl_less x PosInf = (x \<noteq> PosInf)"
| "fl_less NegInf y = (y \<noteq> NegInf)"
| "fl_less x y = False"

fun fl_add :: "pyfloat \<Rightarrow> pyfloat \<Rightarrow> pyfloat" where
  "fl_add NaN y = NaN"
| "fl_add x NaN = NaN"
| "fl_add (Fin a) (Fin b) = Fin (a + b)"
| "fl_add PosInf NegInf = NaN"
| "fl_add NegInf PosInf = NaN"
| "fl_add (Fin a) y = y"
| "fl_add x y = x"

fun fl_scale :: "pyfloat \<Rightarrow> rat \<Rightarrow> pyfloat" where
  "fl_scale (Fin a) k = Fin (a * k)"
| "fl_scale x k = x"

definition fl_sum :: "pyfloat list \<Rightarrow> pyfloat" where
  "fl_sum xs = foldl fl_add (Fin 0) xs"

definition round_half_even :: "rat \<Rightarrow> int" where
  "round_half_even q =
     (let f = \<lfloor>q\<rfloor>; d = q - of_int f in
      if d < 1 / 2 then f else if 1 / 2 < d then f + 1 else if even f then f else f + 1)"

text \<open>\<^verbatim>\<open>round(x, n)\<close>.\<close>

fun fl_round :: "pyfloat \<Rightarrow> nat \<Rightarrow> pyfloat" where
  "fl_round (Fin a) n = Fin (of_int (round_half_even (a * 10 ^ n)) / 10 ^ n)"
| "fl_round x n = x"

subsection \<open>One review, one file, the run\<close>

text \<open>The sentiment filter of lines 174-178: \<open>True\<close> when the review is kept.\<close>

fun py_lower :: "json \<Rightarrow> py_error + string" where
  "py_lower (JStr s) = Inr (lower s)"
| "py_lower v = Inl AttributeError"

definition sentiment_matches :: "string option \<Rightarrow> dict \<Rightarrow> py_error + bool" where
  "sentiment_matches filter_sentiment review =
     (case filter_sentiment of
        None \<Rightarrow> Inr True
      | Some f \<Rightarrow>
          if f = [] then Inr True
          else ebind (py_lower (get_or review ''sentiment'' (JStr [])))
                     (\<lambda>review_sentiment. Inr (review_sentiment = lower f)))"

text \<open>The rating sanity check of lines 182-191; only ValueError and TypeError are caught.\<close>

definition sanitize_rating :: "builtins \<Rightarrow> dict \<Rightarrow> py_error + dict" where
  "sanitize_rating B review =
     (case map_of review ''rating'' of
        None \<Rightarrow> Inr review
      | Some JNull \<Rightarrow> Inr review
      | Some v \<Rightarrow>
          (case py_float B v of
             Inr r_val \<Rightarrow>
               Inr (dict_set review ''rating'' (if fl_less (Fin 5) r_val then JNull else JFloat r_val))
           | Inl ValueError \<Rightarrow> Inr (dict_set review ''rating'' JNull)
           | Inl TypeError \<Rightarrow> Inr (dict_set review ''rating'' JNull)
           | Inl e \<Rightarrow> Inl e))"

text \<open>\<^verbatim>\<open>self.product_map[product_id]['reviews'].append(review)\<close>.\<close>

definition append_review ::
  "(string option \<times> product) list \<Rightarrow> string option \<Rightarrow> dict \<Rightarrow> py_error + (string option \<times> product) list" where
  "append_review pm pid review =
     (case map_of pm pid of
        None \<Rightarrow> Inl KeyError
      | Some p \<Rightarrow> Inr (AList.update pid (p\<lparr>reviews := reviews p @ [review]\<rparr>) pm))"

definition process_review ::
  "builtins \<Rightarrow> string option \<Rightarrow> string option \<Rightarrow> merger \<times> tally \<Rightarrow> dict \<Rightarrow> py_error + merger \<times> tally" where
  "process_review B filter_sentiment pid st review =
     (let dup = is_duplicate_review B (fst st) (get_or review ''review_text'' (JStr []));
          self = snd dup; t = snd st
      in if fst dup then Inr (self, t\<lparr>duplicate_count := duplicate_count t + 1\<rparr>)
         else ebind (sentiment_matches filter_sentiment review) (\<lambda>keep.
           if keep then
             ebind (sanitize_rating B review) (\<lambda>review'.
             ebind (append_review (product_map self) pid review') (\<lambda>pm.
               Inr (self\<lparr>all_reviews := all_reviews self @ [review'], product_map := pm\<rparr>,
                    t\<lparr>kept_count := kept_count t + 1\<rparr>)))
           else Inr (self, t\<lparr>filtered_count := filtered_count t + 1\<rparr>)))"

text \<open>Lines 146-158: the product entry is created on first sight, the source file is
  recorded once.\<close>

definition track_product :: "product_info \<Rightarrow> (string option \<times> product) list \<Rightarrow> (string option \<times> product) list" where
  "track_product pinfo pm =
     (let pid = pi_product_id pinfo;
          pm1 = (if map_of pm pid = None
                 then pm @ [(pid, \<lparr> product_id = pid, product_name = pi_product_name pinfo,
                                     product_url = pi_product_url pinfo,
                                     source_files = [], reviews = [] \<rparr>)]
                 else pm)
      in AList.map_entry pid
           (\<lambda>p. if pi_source_file pinfo \<in> set (source_files p) then p
                else p\<lparr>source_files := source_files p @ [pi_source_file pinfo]\<rparr>) pm1)"

definition process_file ::
  "builtins \<Rightarrow> (string \<Rightarrow> json option) \<Rightarrow> string option \<Rightarrow> merger \<times> totals \<Rightarrow> string
     \<Rightarrow> py_error + merger \<times> totals" where
  "process_file B fs filter_sentiment st filepath =
     (let data = load_json_file fs filepath in
      if \<not> truthy data then Inr st
      else ebind (extract_reviews_from_json B data filepath) (\<lambda>ex.
        if fst ex = [] then Inr st
        else
          let self = (fst st)\<lparr>product_map := track_product (snd ex) (product_map (fst st))\<rparr> in
          ebind (foldM (process_review B filter_sentiment (pi_product_id (snd ex)))
                       (self, \<lparr>kept_count = 0, duplicate_count = 0, filtered_count = 0\<rparr>) (fst ex))
            (\<lambda>res. Inr (fst res,
               \<lparr> total_reviews_loaded = total_reviews_loaded (snd st) + length (fst ex),
                 total_duplicates_removed = total_duplicates_removed (snd st) + duplicate_count (snd res),
                 total_filtered_out = total_filtered_out (snd st) + filtered_count (snd res) \<rparr>))))"

subsection \<open>The combined document\<close>

record stats =
  sentiment_distribution :: "(string \<times> nat) list"
  average_rating :: "pyfloat option"
  average_confidence :: "pyfloat option"
  average_score :: "pyfloat option"
  verified_purchases :: nat
  verified_percentage :: json

record meta =
  total_files_merged :: nat
  total_products :: nat
  total_reviews :: nat
  statistics :: stats
  filter_tag :: "string option"

record combined =
  metadata :: meta
  products :: "product list"

definition count_sentiment :: "(string \<times> nat) list \<Rightarrow> dict \<Rightarrow> py_error + (string \<times> nat) list" where
  "count_sentiment sentiments review =
     (let s = get_or review ''sentiment'' (JStr ''unknown'') in
      ebind (py_lower (if truthy s then s else JStr ''unknown'')) (\<lambda>k.
        Inr (AList.update k ((case map_of sentiments k of None \<Rightarrow> 0 | Some n \<Rightarrow> n) + 1) sentiments)))"

text \<open>The values of a field that are not \<^verbatim>\<open>None\<close>, in review order.\<close>

definition present_values :: "string \<Rightarrow> dict list \<Rightarrow> json list" where
  "present_values k rs =
     concat (map (\<lambda>r. case map_of r k of None \<Rightarrow> [] | Some JNull \<Rightarrow> [] | Some v \<Rightarrow> [v]) rs)"

text \<open>Ratings are summed as they are; confidences and scores go through \<^verbatim>\<open>float()\<close>
  under a bare \<^verbatim>\<open>except\<close>, which drops what does not convert.\<close>

fun py_number :: "json \<Rightarrow> py_error + pyfloat" where
  "py_number (JFloat f) = Inr f"
| "py_number (JInt n) = Inr (Fin (of_int n))"
| "py_number (JBool b) = Inr (Fin (if b then 1 else 0))"
| "py_number v = Inl TypeError"

definition float_values :: "builtins \<Rightarrow> string \<Rightarrow> dict list \<Rightarrow> pyfloat list" where
  "float_values B k rs =
     concat (map (\<lambda>v. case py_float B v of Inl e \<Rightarrow> [] | Inr f \<Rightarrow> [f]) (present_values k rs))"

definition mean :: "pyfloat list \<Rightarrow> pyfloat option" where
  "mean xs = (if xs = [] then None else Some (fl_scale (fl_sum xs) (1 / of_nat (length xs))))"

text \<open>\<^verbatim>\<open>round(avg, n) if avg else None\<close>.\<close>

definition rounded_or_none :: "pyfloat option \<Rightarrow> nat \<Rightarrow> pyfloat option" where
  "rounded_or_none avg n =
     (case avg of None \<Rightarrow> None | Some a \<Rightarrow> if a = Fin 0 then None else Some (fl_round a n))"

definition build_combined_data :: "builtins \<Rightarrow> merger \<Rightarrow> string option \<Rightarrow> py_error + combined" where
  "build_combined_data B self filter_sentiment =
     ebind (foldM count_sentiment
              [(''positive'', 0), (''negative'', 0), (''neutral'', 0), (''unknown'', 0)]
              (all_reviews self)) (\<lambda>sentiments.
     ebind (mapM py_number (present_values ''rating'' (all_reviews self))) (\<lambda>ratings.
       let verified_count =
             length (filter (\<lambda>r. truthy (get_or r ''verified_purchase'' JNull)) (all_reviews self))
       in Inr
         \<lparr> metadata =
             \<lparr> total_files_merged = length (product_map self),
               total_products = length (all_products self),
               total_reviews = length (all_reviews self),
               statistics =
                 \<lparr> sentiment_distribution = sentiments,
                   average_rating = rounded_or_none (mean ratings) 2,
                   average_confidence =
                     rounded_or_none (mean (float_values B ''confidence'' (all_reviews self))) 4,
                   average_score =
                     rounded_or_none (mean (float_values B ''score'' (all_reviews self))) 4,
                   verified_purchases = verified_count,
                   verified_percentage =
                     (if all_reviews self = [] then JInt 0
                      else JFloat (fl_round (Fin (of_nat verified_count
                                      / of_nat (length (all_reviews self)) * 100)) 2)) \<rparr>,
               filter_tag =
                 (if str_truthy filter_sentiment
                  then map_option (\<lambda>f. upper f @ ''_ONLY'') filter_sentiment else None) \<rparr>,
           products = all_products self \<rparr>))"

text \<open>What a run leaves behind: the merger, the printed totals, the returned document.\<close>

record merge_result =
  final :: merger
  summary :: totals
  combined_data :: combined

definition merge_files ::
  "builtins \<Rightarrow> (string \<Rightarrow> json option) \<Rightarrow> merger \<Rightarrow> string list \<Rightarrow> string option
     \<Rightarrow> py_error + merge_result" where
  "merge_files B fs self json_files filter_sentiment =
     ebind (foldM (process_file B fs filter_sentiment)
              (self, \<lparr>total_reviews_loaded = 0, total_duplicates_removed = 0, total_filtered_out = 0\<rparr>)
              json_files) (\<lambda>res.
       let self' = (fst res)\<lparr>all_products := map snd (product_map (fst res))\<rparr> in
       ebind (build_combined_data B self' filter_sentiment) (\<lambda>out.
         Inr \<lparr> final = self', summary = snd res, combined_data = out \<rparr>))"

section \<open>Reading a run\<close>

text \<open>\<^verbatim>\<open>review.get('review_text', '')\<close>, and the reviews of the returned document.\<close>

definition review_text_of :: "dict \<Rightarrow> json" where
  "review_text_of review = get_or review ''review_text'' (JStr [])"

definition output_reviews :: "combined \<Rightarrow> dict list" where
  "output_reviews out = concat (map reviews (products out))"

text \<open>Two summaries that differ only by reviews that were loaded and counted as duplicates.\<close>

definition same_but_duplicates :: "totals \<Rightarrow> totals \<Rightarrow> bool" where
  "same_but_duplicates t1 t2 =
     (total_filtered_out t1 = total_filtered_out t2
      \<and> total_duplicates_removed t1 + total_reviews_loaded t2
          = total_duplicates_removed t2 + total_reviews_loaded t1)"

section \<open>Documents typed as the annotations say\<close>









section \<open>Sample inputs\<close>

text \<open>
  An instance of the two parameters, enough to run the model on documents whose review
  texts, sentiments and ratings are strings, integers or null.
\<close>

definition stub_builtins :: builtins where
  "stub_builtins = \<lparr> repr = (\<lambda>v. []), float_of_str = (\<lambda>s. None) \<rparr>"

definition sample_fs :: "string \<Rightarrow> json option" where
  "sample_fs = map_of
     [(''walmart_reviews_kitchen_20240101_120000.json'',
         JObj [(''reviews'', JArr [JObj [(''review_text'', JStr ''a fine kitchen thing'')]])]),
      (''padded.json'',
         JArr [JObj [(''review_text'', JStr ''hi           '')]]),
      (''numbers.json'',
         JArr [JInt 1]),
      (''settings.json'',
         JObj [(''theme'', JStr ''dark'')]),
      (''sentiments.json'',
         JArr [JObj [(''review_text'', JStr ''Great product indeed''), (''sentiment'', JStr ''negative'')],
               JObj [(''review_text'', JStr ''great product indeed ''), (''sentiment'', JStr ''Positive'')]]),
      (''huge_rating.json'',
         JArr [JObj [(''review_text'', JStr ''works as described''), (''rating'', JInt (10 ^ 400))]]),
      (''zero_rating.json'',
         JArr [JObj [(''review_text'', JStr ''broke on the first day''), (''rating'', JInt 0)]]),
      (''combined.json'',
         JObj [(''products'', JArr
           [JObj [(''product_id'', JStr ''123''),
                  (''reviews'', JArr
                     [JObj [(''review_text'', JStr ''Solid blender, would buy again''),
                            (''sentiment'', JStr ''positive''), (''rating'', JInt 5)],
                      JObj [(''review_text'', JStr ''  solid blender, would buy again''),
                            (''sentiment'', JStr ''positive''), (''rating'', JFloat (Fin 1060))]])]])]),
      (''extra.json'',
         JArr [JObj [(''product_id'', JStr ''123''), (''review_text'', JStr ''Stopped working after a week''),
                     (''sentiment'', JStr ''NEGATIVE''), (''rating'', JStr ''n/a'')]])]"

section \<open>Auxiliary lemmas\<close>

lemma ebind_Inr [simp]: "ebind (Inr x) f = f x"
  by (simp add: ebind_def)

lemma ebind_Inl [simp]: "ebind (Inl e) f = Inl e"
  by (simp add: ebind_def)

lemma ebind_eq_Inr: "ebind m f = Inr y \<longleftrightarrow> (\<exists>x. m = Inr x \<and> f x = Inr y)"
  by (cases m) simp_all

lemma foldM_invariant:
  assumes "foldM f s xs = Inr s'" and "P s"
    and "\<And>s x s'. P s \<Longrightarrow> x \<in> set xs \<Longrightarrow> f s x = Inr s' \<Longrightarrow> P s'"
  shows "P s'"
  using assms
proof (induction xs arbitrary: s)
  case Nil
  then show ?case by simp
next
  case (Cons x xs)
  from Cons.prems(1) obtain s1 where s1: "f s x = Inr s1" and rest: "foldM f s1 xs = Inr s'"
    by (auto simp: ebind_eq_Inr)
  have "P s1" by (rule Cons.prems(3)[OF Cons.prems(2) _ s1]) simp
  show ?case
  proof (rule Cons.IH[OF rest \<open>P s1\<close>])
    fix s x' s' assume "P s" "x' \<in> set xs" "f s x' = Inr s'"
    then show "P s'" by (intro Cons.prems(3)[of s x' s']) simp_all
  qed
qed

lemma map_of_dict_set: "map_of (dict_set d k v) k' = (if k' = k then Some v else map_of d k')"
  by (simp add: dict_set_def update_conv')

lemma get_or_dict_set: "get_or (dict_set d k v) k' dflt = (if k' = k then v else get_or d k' dflt)"
  by (simp add: get_or_def map_of_dict_set)

lemma sanitize_rating_other:
  assumes "sanitize_rating B r = Inr r'" and "k \<noteq> ''rating''"
  shows "map_of r' k = map_of r k"
  using assms
  by (auto simp: sanitize_rating_def map_of_dict_set split: option.splits json.splits sum.splits py_error.splits if_splits)

lemma sanitize_rating_cases:
  assumes "map_of r ''rating'' = Some v" and "v \<noteq> JNull"
  shows "sanitize_rating B r =
     (case py_float B v of
        Inr x \<Rightarrow> Inr (dict_set r ''rating'' (if fl_less (Fin 5) x then JNull else JFloat x))
      | Inl e \<Rightarrow> if e = ValueError \<or> e = TypeError then Inr (dict_set r ''rating'' JNull) else Inl e)"
  using assms
  by (cases v; cases "py_float B v")
     (auto simp: sanitize_rating_def split: py_error.splits)

lemma sanitize_rating_text:
  "sanitize_rating B r = Inr r' \<Longrightarrow> review_text_of r' = review_text_of r"
  by (simp add: review_text_of_def get_or_def sanitize_rating_other)

lemma is_duplicate_review_True:
  "fst (is_duplicate_review B self t) \<Longrightarrow> snd (is_duplicate_review B self t) = self"
  by (simp add: is_duplicate_review_def split: if_splits)

lemma is_duplicate_review_False:
  assumes "\<not> fst (is_duplicate_review B self t)"
  shows "truthy t" "10 \<le> length (py_str B t)" "normalized B t \<notin> seen_review_texts self"
    "snd (is_duplicate_review B self t) = self\<lparr>seen_review_texts := insert (normalized B t) (seen_review_texts self)\<rparr>"
  using assms by (simp_all add: is_duplicate_review_def split: if_splits)

lemma process_review_unfold:
  "process_review B flt pid (self, t) r =
     (if fst (is_duplicate_review B self (review_text_of r))
      then Inr (self, t\<lparr>duplicate_count := duplicate_count t + 1\<rparr>)
      else ebind (sentiment_matches flt r) (\<lambda>keep.
        if keep then
          ebind (sanitize_rating B r) (\<lambda>r'.
            case map_of (product_map self) pid of
              None \<Rightarrow> Inl KeyError
            | Some p \<Rightarrow>
                Inr (self\<lparr>seen_review_texts := insert (normalized B (review_text_of r)) (seen_review_texts self),
                          all_reviews := all_reviews self @ [r'],
                          product_map := AList.update pid (p\<lparr>reviews := reviews p @ [r']\<rparr>) (product_map self)\<rparr>,
                     t\<lparr>kept_count := kept_count t + 1\<rparr>))
        else Inr (self\<lparr>seen_review_texts := insert (normalized B (review_text_of r)) (seen_review_texts self)\<rparr>,
                  t\<lparr>filtered_count := filtered_count t + 1\<rparr>)))"
proof (cases "fst (is_duplicate_review B self (review_text_of r))")
  case True
  then show ?thesis
    using is_duplicate_review_True[OF True]
    by (simp add: process_review_def review_text_of_def Let_def)
next
  case False
  have snd_eq: "snd (is_duplicate_review B self (get_or r ''review_text'' (JStr []))) =
      self\<lparr>seen_review_texts := insert (normalized B (review_text_of r)) (seen_review_texts self)\<rparr>"
    using is_duplicate_review_False(4)[OF False] by (simp add: review_text_of_def)
  have fst_eq: "fst (is_duplicate_review B self (get_or r ''review_text'' (JStr []))) = False"
    using False by (simp add: review_text_of_def)
  show ?thesis
    unfolding process_review_def Let_def fst_conv snd_conv snd_eq fst_eq append_review_def
    using False
    by (auto simp: ebind_def split: sum.splits option.splits)
qed

lemma process_review_cases:
  assumes "process_review B flt pid (self, t) r = Inr (self', t')"
  obtains
    (dup) "fst (is_duplicate_review B self (review_text_of r))" "self' = self"
      "t' = t\<lparr>duplicate_count := duplicate_count t + 1\<rparr>"
  | (filtered) "\<not> fst (is_duplicate_review B self (review_text_of r))"
      "sentiment_matches flt r = Inr False"
      "self' = self\<lparr>seen_review_texts := insert (normalized B (review_text_of r)) (seen_review_texts self)\<rparr>"
      "t' = t\<lparr>filtered_count := filtered_count t + 1\<rparr>"
  | (kept) r' p where "\<not> fst (is_duplicate_review B self (review_text_of r))"
      "sentiment_matches flt r = Inr True" "sanitize_rating B r = Inr r'"
      "map_of (product_map self) pid = Some p"
      "self' = self\<lparr>seen_review_texts := insert (normalized B (review_text_of r)) (seen_review_texts self),
                    all_reviews := all_reviews self @ [r'],
                    product_map := AList.update pid (p\<lparr>reviews := reviews p @ [r']\<rparr>) (product_map self)\<rparr>"
      "t' = t\<lparr>kept_count := kept_count t + 1\<rparr>"
  using assms unfolding process_review_unfold
  by (auto simp: ebind_eq_Inr split: if_splits option.splits)


lemma search_product_id_nonempty: "search_product_id s = Some m \<Longrightarrow> m \<noteq> []"
  by (induction s) (auto split: if_splits)

lemma extract_product_id:
  assumes "extract_reviews_from_json B data p = Inr (rs, pinfo)"
  shows "str_truthy (pi_product_id pinfo)"
proof -
  from assms obtain pi0 where "pinfo = resolve_identity p pi0"
    by (auto simp: extract_reviews_from_json_def Let_def ebind_eq_Inr)
  then show ?thesis
    by (auto simp: resolve_identity_def str_truthy_def split: option.splits dest: search_product_id_nonempty)
qed

lemma process_file_cases:
  assumes "process_file B fs flt (st, tot) p = Inr (st', tot')"
  obtains
    (skip) "st' = st" "tot' = tot"
  | (merged) rs pinfo t where
      "truthy (load_json_file fs p)"
      "extract_reviews_from_json B (load_json_file fs p) p = Inr (rs, pinfo)" "rs \<noteq> []"
      "foldM (process_review B flt (pi_product_id pinfo))
         (st\<lparr>product_map := track_product pinfo (product_map st)\<rparr>,
          \<lparr>kept_count = 0, duplicate_count = 0, filtered_count = 0\<rparr>) rs = Inr (st', t)"
      "tot' = \<lparr> total_reviews_loaded = total_reviews_loaded tot + length rs,
                total_duplicates_removed = total_duplicates_removed tot + duplicate_count t,
                total_filtered_out = total_filtered_out tot + filtered_count t \<rparr>"
proof (cases "truthy (load_json_file fs p)")
  case False
  with assms show ?thesis by (intro skip) (simp_all add: process_file_def)
next
  case True
  with assms obtain ex where ex: "extract_reviews_from_json B (load_json_file fs p) p = Inr ex"
    by (auto simp: process_file_def Let_def ebind_eq_Inr)
  show ?thesis
  proof (cases "fst ex = []")
    case True
    with assms ex \<open>truthy _\<close> show ?thesis by (intro skip) (simp_all add: process_file_def)
  next
    case False
    with assms ex True obtain res where
      "foldM (process_review B flt (pi_product_id (snd ex)))
         (st\<lparr>product_map := track_product (snd ex) (product_map st)\<rparr>,
          \<lparr>kept_count = 0, duplicate_count = 0, filtered_count = 0\<rparr>) (fst ex) = Inr res"
      "st' = fst res"
      "tot' = \<lparr> total_reviews_loaded = total_reviews_loaded tot + length (fst ex),
                total_duplicates_removed = total_duplicates_removed tot + duplicate_count (snd res),
                total_filtered_out = total_filtered_out tot + filtered_count (snd res) \<rparr>"
      by (auto simp: process_file_def Let_def ebind_eq_Inr)
    with ex True False show ?thesis
      by (intro merged[of "fst ex" "snd ex" "snd res"]) simp_all
  qed
qed

lemma reviews_loop_invariant:
  assumes run: "foldM (process_review B flt pid) (st, t) rs = Inr (st', t')" and "I st"
    and step: "\<And>st t r st' t'. I st \<Longrightarrow> r \<in> set rs \<Longrightarrow> process_review B flt pid (st, t) r = Inr (st', t') \<Longrightarrow> I st'"
  shows "I st'"
proof -
  have "(\<lambda>s. I (fst s)) (st', t')"
  proof (rule foldM_invariant[OF run])
    show "I (fst (st, t))" using \<open>I st\<close> by simp
  next
    fix s x s' assume "I (fst s)" "x \<in> set rs" "process_review B flt pid s x = Inr s'"
    then show "I (fst s')" using step[of "fst s" x "snd s" "fst s'" "snd s'"] by simp
  qed
  then show ?thesis by simp
qed

lemma process_file_invariant:
  assumes run: "process_file B fs flt (st, tot) p = Inr (st', tot')" and "I st"
    and track: "\<And>st pinfo. I st \<Longrightarrow> str_truthy (pi_product_id pinfo)
                  \<Longrightarrow> I (st\<lparr>product_map := track_product pinfo (product_map st)\<rparr>)"
    and step: "\<And>st t r st' t' pid. I st \<Longrightarrow> process_review B flt pid (st, t) r = Inr (st', t') \<Longrightarrow> I st'"
  shows "I st'"
  using run
proof (cases rule: process_file_cases)
  case skip
  with \<open>I st\<close> show ?thesis by simp
next
  case (merged rs pinfo t)
  have "I (st\<lparr>product_map := track_product pinfo (product_map st)\<rparr>)"
    using \<open>I st\<close> extract_product_id[OF merged(2)] by (rule track)
  with merged(4) show ?thesis
    by (rule reviews_loop_invariant) (rule step)
qed

lemma files_loop_invariant:
  assumes run: "foldM (process_file B fs flt) (st, tot) files = Inr (st', tot')" and "I st"
    and track: "\<And>st pinfo. I st \<Longrightarrow> str_truthy (pi_product_id pinfo)
                  \<Longrightarrow> I (st\<lparr>product_map := track_product pinfo (product_map st)\<rparr>)"
    and step: "\<And>st t r st' t' pid. I st \<Longrightarrow> process_review B flt pid (st, t) r = Inr (st', t') \<Longrightarrow> I st'"
  shows "I st'"
proof -
  have "(\<lambda>s. I (fst s)) (st', tot')"
  proof (rule foldM_invariant[OF run])
    show "I (fst (st, tot))" using \<open>I st\<close> by simp
  next
    fix s x s' assume "I (fst s)" "x \<in> set files" "process_file B fs flt s x = Inr s'"
    then show "I (fst s')"
      using process_file_invariant[of B fs flt "fst s" "snd s" x "fst s'" "snd s'" I, OF _ _ track step]
      by simp
  qed
  then show ?thesis by simp
qed

lemma build_combined_data_fields:
  assumes "build_combined_data B self flt = Inr out"
  shows "products out = all_products self"
    "total_reviews (metadata out) = length (all_reviews self)"
    "total_products (metadata out) = length (all_products self)"
    "total_files_merged (metadata out) = length (product_map self)"
  using assms by (auto simp: build_combined_data_def Let_def ebind_eq_Inr)

lemma merge_files_run:
  assumes "merge_files B fs self files flt = Inr res"
  obtains st where
    "foldM (process_file B fs flt)
       (self, \<lparr>total_reviews_loaded = 0, total_duplicates_removed = 0, total_filtered_out = 0\<rparr>) files
     = Inr (st, summary res)"
    "final res = st\<lparr>all_products := map snd (product_map st)\<rparr>"
    "build_combined_data B (final res) flt = Inr (combined_data res)"
    "products (combined_data res) = map snd (product_map st)"
proof -
  from assms obtain r out where
    r: "foldM (process_file B fs flt)
       (self, \<lparr>total_reviews_loaded = 0, total_duplicates_removed = 0, total_filtered_out = 0\<rparr>) files = Inr r"
    and out: "build_combined_data B ((fst r)\<lparr>all_products := map snd (product_map (fst r))\<rparr>) flt = Inr out"
    and res: "res = \<lparr> final = (fst r)\<lparr>all_products := map snd (product_map (fst r))\<rparr>, summary = snd r, combined_data = out \<rparr>"
    by (auto simp: merge_files_def Let_def ebind_eq_Inr)
  show ?thesis
    using r out res build_combined_data_fields(1)[OF out]
    by (intro that[of "fst r"]) simp_all
qed


lemma accepted_texts_distinct:
  assumes run: "foldM (process_file B fs flt) (st, tot) files = Inr (st', tot')"
    and "distinct (map (\<lambda>r. normalized B (review_text_of r)) (all_reviews st))"
    and "\<forall>r\<in>set (all_reviews st). normalized B (review_text_of r) \<in> seen_review_texts st"
  shows "distinct (map (\<lambda>r. normalized B (review_text_of r)) (all_reviews st'))"
    and "\<forall>r\<in>set (all_reviews st'). normalized B (review_text_of r) \<in> seen_review_texts st'"
proof -
  let ?I = "\<lambda>st. distinct (map (\<lambda>r. normalized B (review_text_of r)) (all_reviews st))
      \<and> (\<forall>r\<in>set (all_reviews st). normalized B (review_text_of r) \<in> seen_review_texts st)"
  have "?I st'"
  proof (rule files_loop_invariant[OF run, of ?I])
    show "?I st" using assms(2,3) by simp
  next
    fix st :: merger and pinfo :: product_info assume "?I st"
    then show "?I (st\<lparr>product_map := track_product pinfo (product_map st)\<rparr>)" by simp
  next
    fix st t r st' t' pid
    assume I: "?I st" and "process_review B flt pid (st, t) r = Inr (st', t')"
    from this(2) show "?I st'"
    proof (cases rule: process_review_cases)
      case dup
      with I show ?thesis by simp
    next
      case filtered
      with I show ?thesis by simp
    next
      case (kept r' p)
      have "normalized B (review_text_of r) \<notin> seen_review_texts st"
        using is_duplicate_review_False(3)[OF kept(1)] .
      with I kept(5) sanitize_rating_text[OF kept(3)] show ?thesis by auto
    qed
  qed
  then show "distinct (map (\<lambda>r. normalized B (review_text_of r)) (all_reviews st'))"
    and "\<forall>r\<in>set (all_reviews st'). normalized B (review_text_of r) \<in> seen_review_texts st'"
    by simp_all
qed

lemma map_entry_keys: "map fst (AList.map_entry k f pm) = map fst pm"
  by (induction pm) auto

lemma map_entry_reviews:
  assumes "\<And>p. reviews (f p) = reviews p"
  shows "map (\<lambda>kp. reviews (snd kp)) (AList.map_entry k f pm) = map (\<lambda>kp. reviews (snd kp)) pm"
  by (induction pm) (auto simp: assms)

lemma map_entry_product_id:
  assumes "\<And>p. product_id (f p) = product_id p" and "\<forall>kp\<in>set pm. product_id (snd kp) = fst kp"
  shows "\<forall>kp\<in>set (AList.map_entry k f pm). product_id (snd kp) = fst kp"
  using assms(2) by (induction pm) (auto simp: assms(1))

lemma track_product_reviews:
  "map (\<lambda>kp. reviews (snd kp)) (track_product pinfo pm) =
     map (\<lambda>kp. reviews (snd kp)) pm @ (if map_of pm (pi_product_id pinfo) = None then [[]] else [])"
  unfolding track_product_def Let_def
  by (subst map_entry_reviews) auto

lemma track_product_keys:
  "map fst (track_product pinfo pm) =
     map fst pm @ (if map_of pm (pi_product_id pinfo) = None then [pi_product_id pinfo] else [])"
  unfolding track_product_def Let_def by (simp add: map_entry_keys)

lemma track_product_product_id:
  assumes "\<forall>kp\<in>set pm. product_id (snd kp) = fst kp"
  shows "\<forall>kp\<in>set (track_product pinfo pm). product_id (snd kp) = fst kp"
  unfolding track_product_def Let_def
  by (rule map_entry_product_id) (use assms in auto)

lemma update_existing_keys:
  "map_of pm k = Some p \<Longrightarrow> map fst (AList.update k v pm) = map fst pm"
  by (induction pm) (auto split: if_splits)

lemma update_existing_reviews:
  "map_of pm k = Some p \<Longrightarrow>
   mset (concat (map (\<lambda>kp. reviews (snd kp)) (AList.update k (p\<lparr>reviews := reviews p @ [r]\<rparr>) pm)))
     = add_mset r (mset (concat (map (\<lambda>kp. reviews (snd kp)) pm)))"
  by (induction pm) (auto split: if_splits)

lemma update_existing_product_id:
  assumes "map_of pm k = Some p" and "\<forall>kp\<in>set pm. product_id (snd kp) = fst kp"
    and "product_id v = k"
  shows "\<forall>kp\<in>set (AList.update k v pm). product_id (snd kp) = fst kp"
  using assms by (induction pm) (auto split: if_splits)

lemma products_partition_reviews:
  assumes run: "foldM (process_file B fs flt) (st, tot) files = Inr (st', tot')"
    and "mset (concat (map (\<lambda>kp. reviews (snd kp)) (product_map st))) = mset (all_reviews st)"
  shows "mset (concat (map (\<lambda>kp. reviews (snd kp)) (product_map st'))) = mset (all_reviews st')"
proof (rule files_loop_invariant[OF run,
    of "\<lambda>st. mset (concat (map (\<lambda>kp. reviews (snd kp)) (product_map st))) = mset (all_reviews st)"])
  show "mset (concat (map (\<lambda>kp. reviews (snd kp)) (product_map st))) = mset (all_reviews st)"
    by (rule assms(2))
next
  fix st :: merger and pinfo :: product_info
  assume "mset (concat (map (\<lambda>kp. reviews (snd kp)) (product_map st))) = mset (all_reviews st)"
  then show "mset (concat (map (\<lambda>kp. reviews (snd kp))
        (product_map (st\<lparr>product_map := track_product pinfo (product_map st)\<rparr>))))
      = mset (all_reviews (st\<lparr>product_map := track_product pinfo (product_map st)\<rparr>))"
    by (simp add: track_product_reviews)
next
  fix st t r st' t' pid
  assume I: "mset (concat (map (\<lambda>kp. reviews (snd kp)) (product_map st))) = mset (all_reviews st)"
    and "process_review B flt pid (st, t) r = Inr (st', t')"
  from this(2) show "mset (concat (map (\<lambda>kp. reviews (snd kp)) (product_map st'))) = mset (all_reviews st')"
  proof (cases rule: process_review_cases)
    case (kept r' p)
    with I show ?thesis by (simp add: update_existing_reviews)
  qed (use I in simp_all)
qed

lemma product_keys_invariant:
  assumes run: "foldM (process_file B fs flt) (st, tot) files = Inr (st', tot')"
    and "distinct (map fst (product_map st))"
    and "\<forall>kp\<in>set (product_map st). product_id (snd kp) = fst kp \<and> str_truthy (fst kp)"
  shows "distinct (map fst (product_map st'))"
    and "\<forall>kp\<in>set (product_map st'). product_id (snd kp) = fst kp \<and> str_truthy (fst kp)"
proof -
  let ?I = "\<lambda>st. distinct (map fst (product_map st))
     \<and> (\<forall>kp\<in>set (product_map st). product_id (snd kp) = fst kp)
     \<and> (\<forall>k\<in>set (map fst (product_map st)). str_truthy k)"
  have "?I st'"
  proof (rule files_loop_invariant[OF run, of ?I])
    show "?I st" using assms(2,3) by auto
  next
    fix st :: merger and pinfo :: product_info assume I: "?I st" and ok: "str_truthy (pi_product_id pinfo)"
    show "?I (st\<lparr>product_map := track_product pinfo (product_map st)\<rparr>)"
    proof (cases "map_of (product_map st) (pi_product_id pinfo)")
      case None
      then have "pi_product_id pinfo \<notin> set (map fst (product_map st))"
        by (simp add: map_of_eq_None_iff)
      with None I ok track_product_product_id[of "product_map st" pinfo] show ?thesis
        by (simp add: track_product_keys)
    next
      case (Some p)
      with I ok track_product_product_id[of "product_map st" pinfo] show ?thesis
        by (simp add: track_product_keys)
    qed
  next
    fix st t r st' t' pid
    assume I: "?I st" and "process_review B flt pid (st, t) r = Inr (st', t')"
    from this(2) show "?I st'"
    proof (cases rule: process_review_cases)
      case (kept r' p)
      from kept(4) have "(pid, p) \<in> set (product_map st)" by (rule map_of_SomeD)
      with I have "product_id p = pid" by auto
      with I kept(4,5) update_existing_product_id[OF kept(4), of "p\<lparr>reviews := reviews p @ [r']\<rparr>"]
      show ?thesis by (simp add: update_existing_keys)
    qed (use I in simp_all)
  qed
  then show "distinct (map fst (product_map st'))"
    and "\<forall>kp\<in>set (product_map st'). product_id (snd kp) = fst kp \<and> str_truthy (fst kp)"
    by auto
qed

lemma merge_files_accepted:
  assumes "merge_files B fs init_merger files flt = Inr res"
  obtains st where
    "foldM (process_file B fs flt)
       (init_merger, \<lparr>total_reviews_loaded = 0, total_duplicates_removed = 0, total_filtered_out = 0\<rparr>) files
     = Inr (st, summary res)"
    "all_reviews (final res) = all_reviews st"
    "products (combined_data res) = map snd (product_map st)"
    "mset (output_reviews (combined_data res)) = mset (all_reviews st)"
proof -
  from assms obtain st where
    run: "foldM (process_file B fs flt)
       (init_merger, \<lparr>total_reviews_loaded = 0, total_duplicates_removed = 0, total_filtered_out = 0\<rparr>)
       files = Inr (st, summary res)"
    and fin: "final res = st\<lparr>all_products := map snd (product_map st)\<rparr>"
    and prods: "products (combined_data res) = map snd (product_map st)"
    by (rule merge_files_run)
  have "mset (concat (map (\<lambda>kp. reviews (snd kp)) (product_map st))) = mset (all_reviews st)"
    by (rule products_partition_reviews[OF run]) (simp add: init_merger_def)
  then have "mset (output_reviews (combined_data res)) = mset (all_reviews st)"
    by (simp add: output_reviews_def prods comp_def)
  with run fin prods show ?thesis by (intro that[of st]) simp_all
qed

lemma accepted_reviews_property:
  assumes run: "foldM (process_file B fs flt) (st, tot) files = Inr (st', tot')"
    and "\<forall>r\<in>set (all_reviews st). Q r"
    and keep_rule: "\<And>self r r'. \<not> fst (is_duplicate_review B self (review_text_of r))
        \<Longrightarrow> sentiment_matches flt r = Inr True \<Longrightarrow> sanitize_rating B r = Inr r' \<Longrightarrow> Q r'"
  shows "\<forall>r\<in>set (all_reviews st'). Q r"
proof (rule files_loop_invariant[OF run, of "\<lambda>st. \<forall>r\<in>set (all_reviews st). Q r"])
  show "\<forall>r\<in>set (all_reviews st). Q r" by (rule assms(2))
next
  fix st :: merger and pinfo :: product_info
  assume "\<forall>r\<in>set (all_reviews st). Q r"
  then show "\<forall>r\<in>set (all_reviews (st\<lparr>product_map := track_product pinfo (product_map st)\<rparr>)). Q r"
    by simp
next
  fix st t r st' t' pid
  assume I: "\<forall>r\<in>set (all_reviews st). Q r" and "process_review B flt pid (st, t) r = Inr (st', t')"
  from this(2) show "\<forall>r\<in>set (all_reviews st'). Q r"
  proof (cases rule: process_review_cases)
    case (kept r' p)
    with I keep_rule[of st r r'] show ?thesis by simp
  qed (use I in simp_all)
qed

lemma py_lower_Inr: "py_lower v = Inr x \<Longrightarrow> \<exists>s. v = JStr s \<and> x = lower s"
  by (cases v) simp_all

lemma sentiment_matches_True:
  assumes "sentiment_matches (Some S) r = Inr True" and "S \<noteq> []"
  shows "\<exists>s. map_of r ''sentiment'' = Some (JStr s) \<and> lower s = lower S"
proof -
  from assms obtain s where s: "get_or r ''sentiment'' (JStr []) = JStr s" "lower s = lower S"
    by (auto simp: sentiment_matches_def ebind_eq_Inr dest!: py_lower_Inr)
  from \<open>S \<noteq> []\<close> s(2) have "s \<noteq> []" by (auto simp: lower_def)
  with s show ?thesis by (auto simp: get_or_def split: option.splits)
qed

lemma concat_owner_unique:
  "distinct (concat (map f ps)) \<Longrightarrow> p \<in> set ps \<Longrightarrow> q \<in> set ps
     \<Longrightarrow> r \<in> set (f p) \<Longrightarrow> r \<in> set (f q) \<Longrightarrow> p = q"
  by (induction ps) auto

lemma foldM_append:
  "foldM f s (xs @ ys) = ebind (foldM f s xs) (\<lambda>s'. foldM f s' ys)"
proof (induction xs arbitrary: s)
  case Nil
  show ?case by simp
next
  case (Cons x xs)
  show ?case by (cases "f s x") (simp_all add: Cons.IH)
qed

lemma is_duplicate_review_mono:
  assumes "fst (is_duplicate_review B st t)" and "seen_review_texts st \<subseteq> seen_review_texts st'"
  shows "fst (is_duplicate_review B st' t)"
  using assms by (auto simp: is_duplicate_review_def split: if_splits)

lemma is_duplicate_review_seen:
  assumes "normalized B t \<in> seen_review_texts st"
  shows "fst (is_duplicate_review B st t)"
  using assms by (simp add: is_duplicate_review_def)

lemma process_review_seen_mono:
  assumes "process_review B flt pid (st, t) r = Inr (st', t')"
  shows "seen_review_texts st \<subseteq> seen_review_texts st'"
    and "fst (is_duplicate_review B st' (review_text_of r))"
  using assms
  by (cases rule: process_review_cases; auto intro: is_duplicate_review_seen)+

lemma reviews_loop_covers:
  assumes "foldM (process_review B flt pid) (st, t) rs = Inr (st', t')"
  shows "seen_review_texts st \<subseteq> seen_review_texts st'
       \<and> list_all (\<lambda>r. fst (is_duplicate_review B st' (review_text_of r))) rs"
  using assms
proof (induction rs arbitrary: st t)
  case Nil
  then show ?case by simp
next
  case (Cons r rs)
  from Cons.prems obtain st1 t1 where
    step: "process_review B flt pid (st, t) r = Inr (st1, t1)"
    and rest: "foldM (process_review B flt pid) (st1, t1) rs = Inr (st', t')"
    by (auto simp: ebind_eq_Inr)
  from Cons.IH[OF rest] have sub: "seen_review_texts st1 \<subseteq> seen_review_texts st'"
    and cov: "list_all (\<lambda>r. fst (is_duplicate_review B st' (review_text_of r))) rs"
    by simp_all
  from process_review_seen_mono[OF step] sub
  have "seen_review_texts st \<subseteq> seen_review_texts st'"
    and "fst (is_duplicate_review B st' (review_text_of r))"
    by (auto intro: is_duplicate_review_mono)
  with cov show ?case by simp
qed

lemma reviews_loop_all_duplicates:
  assumes "list_all (\<lambda>r. fst (is_duplicate_review B st (review_text_of r))) rs"
  shows "foldM (process_review B flt pid) (st, t) rs
       = Inr (st, t\<lparr>duplicate_count := duplicate_count t + length rs\<rparr>)"
  using assms
proof (induction rs arbitrary: t)
  case Nil
  show ?case by simp
next
  case (Cons r rs)
  then show ?case by (simp add: process_review_unfold)
qed

lemma map_entry_unchanged:
  "map_of pm k = Some e \<Longrightarrow> f e = e \<Longrightarrow> AList.map_entry k f pm = pm"
  by (induction pm) (auto split: if_splits)

lemma track_product_unchanged:
  assumes "map_of pm (pi_product_id pinfo) = Some e" and "pi_source_file pinfo \<in> set (source_files e)"
  shows "track_product pinfo pm = pm"
  using assms unfolding track_product_def Let_def
  by (simp add: map_entry_unchanged[where e = e])

lemma track_product_recorded:
  "\<exists>e. map_of (track_product pinfo pm) (pi_product_id pinfo) = Some e
       \<and> pi_source_file pinfo \<in> set (source_files e)"
  unfolding track_product_def Let_def
  by (cases "map_of pm (pi_product_id pinfo)") (auto simp: map_of_map_entry map_add_def)

lemma track_product_keeps:
  assumes "map_of pm k = Some e" and "sf \<in> set (source_files e)"
  shows "\<exists>e'. map_of (track_product pinfo pm) k = Some e' \<and> sf \<in> set (source_files e')"
  using assms unfolding track_product_def Let_def
  by (auto simp: map_of_map_entry)


lemma is_duplicate_review_product_map [simp]:
  "fst (is_duplicate_review B (st\<lparr>product_map := pm\<rparr>) t) = fst (is_duplicate_review B st t)"
  by (simp add: is_duplicate_review_def)

lemma covered_invariant:
  assumes run: "foldM (process_file B fs flt) (st, tot) files = Inr (st', tot')"
    and "list_all (\<lambda>r. fst (is_duplicate_review B st (review_text_of r))) rs"
    and "\<exists>e. map_of (product_map st) k = Some e \<and> sf \<in> set (source_files e)"
  shows "list_all (\<lambda>r. fst (is_duplicate_review B st' (review_text_of r))) rs
       \<and> (\<exists>e. map_of (product_map st') k = Some e \<and> sf \<in> set (source_files e))"
proof -
  let ?I = "\<lambda>st. list_all (\<lambda>r. fst (is_duplicate_review B st (review_text_of r))) rs
       \<and> (\<exists>e. map_of (product_map st) k = Some e \<and> sf \<in> set (source_files e))"
  show ?thesis
  proof (rule files_loop_invariant[OF run, of ?I])
    show "?I st" using assms(2,3) by simp
  next
    fix st :: merger and pinfo :: product_info
    assume "?I st"
    then show "?I (st\<lparr>product_map := track_product pinfo (product_map st)\<rparr>)"
      using track_product_keeps[of "product_map st" k _ sf pinfo] by auto
  next
    fix st t r st' t' pid
    assume I: "?I st" and step: "process_review B flt pid (st, t) r = Inr (st', t')"
    from I process_review_seen_mono(1)[OF step]
    have A: "list_all (\<lambda>r. fst (is_duplicate_review B st' (review_text_of r))) rs"
      by (auto simp: list_all_iff intro: is_duplicate_review_mono)
    from I obtain e where e: "map_of (product_map st) k = Some e" "sf \<in> set (source_files e)"
      by blast
    from step have "\<exists>e. map_of (product_map st') k = Some e \<and> sf \<in> set (source_files e)"
    proof (cases rule: process_review_cases)
      case (kept r' p)
      with e show ?thesis by (cases "k = pid") (auto simp: update_conv')
    qed (use e in auto)
    with A show "?I st'" by simp
  qed
qed

lemma process_file_absorbed:
  assumes first: "process_file B fs flt (st0, tot0) p = Inr (st1, tot1)"
    and later: "foldM (process_file B fs flt) (st1, tot1) ys = Inr (st2, tot2)"
  shows "\<exists>tot3. process_file B fs flt (st2, tot2) p = Inr (st2, tot3) \<and> same_but_duplicates tot3 tot2"
proof (cases "truthy (load_json_file fs p)")
  case False
  then show ?thesis by (simp add: process_file_def same_but_duplicates_def)
next
  case True
  with first obtain rs pinfo where
    ex: "extract_reviews_from_json B (load_json_file fs p) p = Inr (rs, pinfo)"
    by (auto simp: process_file_def Let_def ebind_eq_Inr)
  show ?thesis
  proof (cases "rs = []")
    case True
    with ex \<open>truthy _\<close> show ?thesis by (simp add: process_file_def same_but_duplicates_def)
  next
    case False
    with first True ex obtain t where
      loop: "foldM (process_review B flt (pi_product_id pinfo))
         (st0\<lparr>product_map := track_product pinfo (product_map st0)\<rparr>,
          \<lparr>kept_count = 0, duplicate_count = 0, filtered_count = 0\<rparr>) rs = Inr (st1, t)"
      by (auto simp: process_file_def Let_def ebind_eq_Inr)
    have "\<exists>e. map_of (product_map st1) (pi_product_id pinfo) = Some e
          \<and> pi_source_file pinfo \<in> set (source_files e)"
    proof (rule reviews_loop_invariant[OF loop])
      show "\<exists>e. map_of (product_map (st0\<lparr>product_map := track_product pinfo (product_map st0)\<rparr>))
              (pi_product_id pinfo) = Some e \<and> pi_source_file pinfo \<in> set (source_files e)"
        using track_product_recorded[of pinfo "product_map st0"] by simp
    next
      fix st t r st' t'
      assume e: "\<exists>e. map_of (product_map st) (pi_product_id pinfo) = Some e
            \<and> pi_source_file pinfo \<in> set (source_files e)"
        and "process_review B flt (pi_product_id pinfo) (st, t) r = Inr (st', t')"
      from this(2) show "\<exists>e. map_of (product_map st') (pi_product_id pinfo) = Some e
            \<and> pi_source_file pinfo \<in> set (source_files e)"
        by (cases rule: process_review_cases) (use e in \<open>auto simp: update_conv'\<close>)
    qed
    moreover from reviews_loop_covers[OF loop]
    have "list_all (\<lambda>r. fst (is_duplicate_review B st1 (review_text_of r))) rs" by simp
    ultimately have cov: "list_all (\<lambda>r. fst (is_duplicate_review B st2 (review_text_of r))) rs"
      and "\<exists>e. map_of (product_map st2) (pi_product_id pinfo) = Some e
          \<and> pi_source_file pinfo \<in> set (source_files e)"
      using covered_invariant[OF later, where rs = rs and k = "pi_product_id pinfo"
          and sf = "pi_source_file pinfo"]
      by simp_all
    then have "track_product pinfo (product_map st2) = product_map st2"
      by (auto intro: track_product_unchanged)
    with True ex False reviews_loop_all_duplicates[OF cov] show ?thesis
      by (simp add: process_file_def same_but_duplicates_def)
  qed
qed

lemma process_file_totals:
  assumes "same_but_duplicates tot1 tot2"
  shows "(\<exists>e. process_file B fs flt (st, tot1) p = Inl e \<and> process_file B fs flt (st, tot2) p = Inl e)
       \<or> (\<exists>st' t1 t2. process_file B fs flt (st, tot1) p = Inr (st', t1)
             \<and> process_file B fs flt (st, tot2) p = Inr (st', t2) \<and> same_but_duplicates t1 t2)"
proof (cases "truthy (load_json_file fs p)")
  case False
  with assms show ?thesis by (simp add: process_file_def)
next
  case True
  show ?thesis
  proof (cases "extract_reviews_from_json B (load_json_file fs p) p")
    case (Inl e)
    with True show ?thesis by (simp add: process_file_def)
  next
    case (Inr ex)
    show ?thesis
    proof (cases "fst ex = []")
      case True
      with \<open>truthy _\<close> Inr assms show ?thesis by (simp add: process_file_def)
    next
      case False
      show ?thesis
      proof (cases "foldM (process_review B flt (pi_product_id (snd ex)))
          (st\<lparr>product_map := track_product (snd ex) (product_map st)\<rparr>,
           \<lparr>kept_count = 0, duplicate_count = 0, filtered_count = 0\<rparr>) (fst ex)")
        case (Inl e)
        with \<open>truthy _\<close> \<open>extract_reviews_from_json _ _ _ = Inr ex\<close> False show ?thesis
          by (simp add: process_file_def)
      next
        case res: (Inr res)
        with \<open>truthy _\<close> Inr False assms show ?thesis
          by (simp add: process_file_def same_but_duplicates_def)
      qed
    qed
  qed
qed

lemma files_loop_totals:
  assumes "same_but_duplicates tot1 tot2"
  shows "(\<exists>e. foldM (process_file B fs flt) (st, tot1) zs = Inl e
             \<and> foldM (process_file B fs flt) (st, tot2) zs = Inl e)
       \<or> (\<exists>st' t1 t2. foldM (process_file B fs flt) (st, tot1) zs = Inr (st', t1)
             \<and> foldM (process_file B fs flt) (st, tot2) zs = Inr (st', t2) \<and> same_but_duplicates t1 t2)"
  using assms
proof (induction zs arbitrary: st tot1 tot2)
  case Nil
  then show ?case by simp
next
  case (Cons z zs)
  from process_file_totals[OF Cons.prems, of B fs flt st z] show ?case
  proof (elim disjE exE conjE)
    fix e assume "process_file B fs flt (st, tot1) z = Inl e" "process_file B fs flt (st, tot2) z = Inl e"
    then show ?thesis by simp
  next
    fix st' t1 t2
    assume "process_file B fs flt (st, tot1) z = Inr (st', t1)"
      "process_file B fs flt (st, tot2) z = Inr (st', t2)" "same_but_duplicates t1 t2"
    with Cons.IH[of t1 t2 st'] show ?thesis by simp
  qed
qed


lemma merge_files_of_loop:
  assumes "foldM (process_file B fs flt)
       (self, \<lparr>total_reviews_loaded = 0, total_duplicates_removed = 0, total_filtered_out = 0\<rparr>) files = r"
  shows "merge_files B fs self files flt =
     (case r of
        Inl e \<Rightarrow> Inl e
      | Inr s \<Rightarrow>
          (case build_combined_data B ((fst s)\<lparr>all_products := map snd (product_map (fst s))\<rparr>) flt of
             Inl e \<Rightarrow> Inl e
           | Inr out \<Rightarrow> Inr \<lparr> final = (fst s)\<lparr>all_products := map snd (product_map (fst s))\<rparr>,
                               summary = snd s, combined_data = out \<rparr>))"
  using assms by (auto simp: merge_files_def Let_def ebind_def split: sum.splits)






















section \<open>Properties of a merge run\<close>

text \<open>
  C1. In every merge run that returns, no two reviews of the returned document share a
  normalized review text (trimmed, lower-cased), across all products; the same holds
  for the flat list of accepted reviews kept by the merger.
\<close>

theorem C1_accepted_texts_unique:
  assumes "merge_files B fs init_merger json_files filter_sentiment = Inr res"
  shows "distinct (map (\<lambda>r. normalized B (review_text_of r)) (output_reviews (combined_data res)))
       \<and> distinct (map (\<lambda>r. normalized B (review_text_of r)) (all_reviews (final res)))"
proof -
  from assms obtain st where
    run: "foldM (process_file B fs filter_sentiment)
       (init_merger, \<lparr>total_reviews_loaded = 0, total_duplicates_removed = 0, total_filtered_out = 0\<rparr>)
       json_files = Inr (st, summary res)"
    and fin: "final res = st\<lparr>all_products := map snd (product_map st)\<rparr>"
    and prods: "products (combined_data res) = map snd (product_map st)"
    by (rule merge_files_run)
  have d: "distinct (map (\<lambda>r. normalized B (review_text_of r)) (all_reviews st))"
    by (rule accepted_texts_distinct(1)[OF run]) (simp_all add: init_merger_def)
  have "mset (concat (map (\<lambda>kp. reviews (snd kp)) (product_map st))) = mset (all_reviews st)"
    by (rule products_partition_reviews[OF run]) (simp add: init_merger_def)
  then have "mset (output_reviews (combined_data res)) = mset (all_reviews st)"
    by (simp add: output_reviews_def prods comp_def)
  then have "mset (map (\<lambda>r. normalized B (review_text_of r)) (output_reviews (combined_data res)))
      = mset (map (\<lambda>r. normalized B (review_text_of r)) (all_reviews st))"
    by (metis mset_map)
  from mset_eq_imp_distinct_iff[OF this] d fin show ?thesis by simp
qed

theorem C1_accepted_texts_unique_witness:
  "\<not> isl (merge_files stub_builtins sample_fs init_merger [''combined.json'', ''extra.json''] None)
   \<and> distinct (map (\<lambda>r. normalized stub_builtins (review_text_of r))
        (output_reviews (combined_data (projr
           (merge_files stub_builtins sample_fs init_merger [''combined.json'', ''extra.json''] None)))))"
proof -
  have ok: "\<not> isl (merge_files stub_builtins sample_fs init_merger [''combined.json'', ''extra.json''] None)"
    by code_simp
  then have "merge_files stub_builtins sample_fs init_merger [''combined.json'', ''extra.json''] None
      = Inr (projr (merge_files stub_builtins sample_fs init_merger [''combined.json'', ''extra.json''] None))"
    by simp
  from C1_accepted_texts_unique[OF this] ok show ?thesis by simp
qed

text \<open>
  C2 (amended). A review is kept on the length of its text as written, before trimming:
  every review of the returned document has a truthy \<^verbatim>\<open>review_text\<close> whose
  \<^verbatim>\<open>str()\<close> has at least ten characters, and a candidate whose text is falsy or
  shorter than ten characters is dropped and counted as a duplicate.
\<close>

theorem C2_raw_text_long:
  "(merge_files B fs init_merger json_files filter_sentiment = Inr res \<longrightarrow>
      (\<forall>r\<in>set (output_reviews (combined_data res)).
         truthy (review_text_of r) \<and> 10 \<le> length (py_str B (review_text_of r))))
   \<and> (\<not> truthy (review_text_of review) \<or> length (py_str B (review_text_of review)) < 10 \<longrightarrow>
        process_review B filter_sentiment pid (self, t) review
          = Inr (self, t\<lparr>duplicate_count := duplicate_count t + 1\<rparr>))"
proof (intro conjI impI)
  assume "merge_files B fs init_merger json_files filter_sentiment = Inr res"
  then obtain st where
    run: "foldM (process_file B fs filter_sentiment)
       (init_merger, \<lparr>total_reviews_loaded = 0, total_duplicates_removed = 0, total_filtered_out = 0\<rparr>)
       json_files = Inr (st, summary res)"
    and out: "mset (output_reviews (combined_data res)) = mset (all_reviews st)"
    by (rule merge_files_accepted)
  have "\<forall>r\<in>set (all_reviews st). truthy (review_text_of r) \<and> 10 \<le> length (py_str B (review_text_of r))"
  proof (rule accepted_reviews_property[OF run])
    fix self r r'
    assume "\<not> fst (is_duplicate_review B self (review_text_of r))" "sanitize_rating B r = Inr r'"
    then show "truthy (review_text_of r') \<and> 10 \<le> length (py_str B (review_text_of r'))"
      using is_duplicate_review_False(1,2)[of B self "review_text_of r"] sanitize_rating_text[of B r r']
      by simp
  qed (simp add: init_merger_def)
  with mset_eq_setD[OF out]
  show "\<forall>r\<in>set (output_reviews (combined_data res)).
         truthy (review_text_of r) \<and> 10 \<le> length (py_str B (review_text_of r))"
    by simp
next
  assume "\<not> truthy (review_text_of review) \<or> length (py_str B (review_text_of review)) < 10"
  then have "fst (is_duplicate_review B self (review_text_of review))"
    by (auto simp: is_duplicate_review_def)
  then show "process_review B filter_sentiment pid (self, t) review
          = Inr (self, t\<lparr>duplicate_count := duplicate_count t + 1\<rparr>)"
    by (simp add: process_review_unfold)
qed

theorem C2_raw_text_long_witness:
  "\<not> isl (merge_files stub_builtins sample_fs init_merger [''combined.json'', ''padded.json''] None)
   \<and> list_all (\<lambda>r. truthy (review_text_of r) \<and> 10 \<le> length (py_str stub_builtins (review_text_of r)))
        (output_reviews (combined_data (projr
          (merge_files stub_builtins sample_fs init_merger [''combined.json'', ''padded.json''] None))))
   \<and> length (py_str stub_builtins (review_text_of [(''review_text'', JStr ''too short'')])) < 10
   \<and> process_review stub_builtins None (Some ''123'')
         (init_merger, \<lparr>kept_count = 0, duplicate_count = 0, filtered_count = 0\<rparr>)
         [(''review_text'', JStr ''too short'')]
        = Inr (init_merger, \<lparr>kept_count = 0, duplicate_count = 1, filtered_count = 0\<rparr>)"
proof -
  let ?run = "merge_files stub_builtins sample_fs init_merger [''combined.json'', ''padded.json''] None"
  have ok: "\<not> isl ?run" by code_simp
  then have run: "?run = Inr (projr ?run)" by simp
  have short: "length (py_str stub_builtins (review_text_of [(''review_text'', JStr ''too short'')])) < 10"
    by code_simp
  note inst = C2_raw_text_long[where B = stub_builtins and fs = sample_fs
      and json_files = "[''combined.json'', ''padded.json'']" and filter_sentiment = None
      and res = "projr ?run" and review = "[(''review_text'', JStr ''too short'')]"
      and pid = "Some ''123''" and self = init_merger
      and t = "\<lparr>kept_count = 0, duplicate_count = 0, filtered_count = 0\<rparr>"]
  from inst run have "\<forall>r\<in>set (output_reviews (combined_data (projr ?run))).
         truthy (review_text_of r) \<and> 10 \<le> length (py_str stub_builtins (review_text_of r))"
    by blast
  then have A: "list_all (\<lambda>r. truthy (review_text_of r) \<and> 10 \<le> length (py_str stub_builtins (review_text_of r)))
        (output_reviews (combined_data (projr ?run)))"
    by (simp add: list_all_iff)
  from inst short have "process_review stub_builtins None (Some ''123'')
         (init_merger, \<lparr>kept_count = 0, duplicate_count = 0, filtered_count = 0\<rparr>)
         [(''review_text'', JStr ''too short'')]
        = Inr (init_merger, \<lparr>kept_count = 0, duplicate_count = 0, filtered_count = 0\<rparr>
                 \<lparr>duplicate_count := duplicate_count \<lparr>kept_count = 0, duplicate_count = 0, filtered_count = 0\<rparr> + 1\<rparr>)"
    by blast
  then have B: "process_review stub_builtins None (Some ''123'')
         (init_merger, \<lparr>kept_count = 0, duplicate_count = 0, filtered_count = 0\<rparr>)
         [(''review_text'', JStr ''too short'')]
        = Inr (init_merger, \<lparr>kept_count = 0, duplicate_count = 1, filtered_count = 0\<rparr>)"
    by simp
  from ok A short B show ?thesis by blast
qed

text \<open>
  The length check precedes the trimming, so padding counts: the text of
  \<^verbatim>\<open>padded.json\<close> is kept although it normalizes to two characters.
\<close>

theorem C2_counterexample:
  "\<not> isl (merge_files stub_builtins sample_fs init_merger [''padded.json''] None)
   \<and> map (\<lambda>r. normalized stub_builtins (review_text_of r))
        (output_reviews (combined_data (projr
           (merge_files stub_builtins sample_fs init_merger [''padded.json''] None)))) = [''hi'']"
  by code_simp

text \<open>
  C3. A document without any product id, in the file
  \<^verbatim>\<open>walmart_reviews_kitchen_20240101_120000.json\<close>, is returned under the product id
  \<^verbatim>\<open>20240101\<close> with no product name: the date of the time stamp is an eight-digit
  run between underscores, so the search of line 90 takes it as the id, and the
  \<^verbatim>\<open>GROUP_\<close> fallback (which would give \<^verbatim>\<open>GROUP_kitchen\<close> and \<^verbatim>\<open>Kitchen\<close>) is
  not reached.
\<close>

theorem C3_timestamp_taken_as_id:
  "map_sum id (\<lambda>res. map (\<lambda>p. (product_id p, product_name p)) (products (combined_data res)))
     (merge_files stub_builtins sample_fs init_merger
        [''walmart_reviews_kitchen_20240101_120000.json''] None)
   = Inr [(Some ''20240101'', JNull)]"
  by code_simp




text \<open>
  C5. A file that occurs a second time in the list changes nothing but the printed
  summary: the merger and the returned document (products, source files, accepted
  reviews, counts and statistics) are those of the list without the second occurrence,
  and every review of the second copy is counted as a duplicate. If one run raises, so
  does the other, with the same error.
\<close>

theorem C5_repeated_file:
  "(\<exists>e. merge_files B fs init_merger (xs @ p # ys @ p # zs) filter_sentiment = Inl e
        \<and> merge_files B fs init_merger (xs @ p # ys @ zs) filter_sentiment = Inl e)
   \<or> (\<exists>twice once.
        merge_files B fs init_merger (xs @ p # ys @ p # zs) filter_sentiment = Inr twice
        \<and> merge_files B fs init_merger (xs @ p # ys @ zs) filter_sentiment = Inr once
        \<and> final twice = final once
        \<and> combined_data twice = combined_data once
        \<and> same_but_duplicates (summary twice) (summary once))"
proof -
  let ?F = "foldM (process_file B fs filter_sentiment)"
  let ?z = "(init_merger, \<lparr>total_reviews_loaded = 0, total_duplicates_removed = 0, total_filtered_out = 0\<rparr>)"
  have split1: "?F ?z (xs @ p # ys @ p # zs)
      = ebind (?F ?z (xs @ p # ys)) (\<lambda>s. ebind (process_file B fs filter_sentiment s p) (\<lambda>s'. ?F s' zs))"
    using foldM_append[of "process_file B fs filter_sentiment" ?z "xs @ p # ys" "p # zs"] by simp
  have split2: "?F ?z (xs @ p # ys @ zs) = ebind (?F ?z (xs @ p # ys)) (\<lambda>s. ?F s zs)"
    using foldM_append[of "process_file B fs filter_sentiment" ?z "xs @ p # ys" zs] by simp
  have loops: "(\<exists>e. ?F ?z (xs @ p # ys @ p # zs) = Inl e \<and> ?F ?z (xs @ p # ys @ zs) = Inl e)
       \<or> (\<exists>st' t1 t2. ?F ?z (xs @ p # ys @ p # zs) = Inr (st', t1)
             \<and> ?F ?z (xs @ p # ys @ zs) = Inr (st', t2) \<and> same_but_duplicates t1 t2)"
  proof (cases "?F ?z (xs @ p # ys)")
    case (Inl e)
    then show ?thesis by (simp add: split1 split2)
  next
    case (Inr s2)
    then have "ebind (?F ?z xs) (\<lambda>s. ebind (process_file B fs filter_sentiment s p) (\<lambda>s'. ?F s' ys)) = Inr s2"
      using foldM_append[of "process_file B fs filter_sentiment" ?z xs "p # ys"] by simp
    then obtain s0 s1 where
      "process_file B fs filter_sentiment s0 p = Inr s1" "?F s1 ys = Inr s2"
      by (auto simp: ebind_eq_Inr)
    then have "process_file B fs filter_sentiment (fst s0, snd s0) p = Inr (fst s1, snd s1)"
      "?F (fst s1, snd s1) ys = Inr (fst s2, snd s2)"
      by simp_all
    from process_file_absorbed[OF this] obtain tot3 where
      again: "process_file B fs filter_sentiment s2 p = Inr (fst s2, tot3)"
      and rel: "same_but_duplicates tot3 (snd s2)"
      by auto
    from files_loop_totals[OF rel, of B fs filter_sentiment "fst s2" zs] Inr again
    show ?thesis by (simp add: split1 split2)
  qed
  then show ?thesis
  proof (elim disjE exE conjE)
    fix e
    assume "?F ?z (xs @ p # ys @ p # zs) = Inl e" "?F ?z (xs @ p # ys @ zs) = Inl e"
    then show ?thesis
      by (simp add: merge_files_of_loop[OF refl])
  next
    fix st' t1 t2
    assume "?F ?z (xs @ p # ys @ p # zs) = Inr (st', t1)" "?F ?z (xs @ p # ys @ zs) = Inr (st', t2)"
      "same_but_duplicates t1 t2"
    then show ?thesis
      by (cases "build_combined_data B (st'\<lparr>all_products := map snd (product_map st')\<rparr>) filter_sentiment")
        (simp_all add: merge_files_of_loop[OF refl])
  qed
qed

theorem C5_repeated_file_witness:
  "\<not> isl (merge_files stub_builtins sample_fs init_merger
            [''combined.json'', ''extra.json'', ''combined.json'', ''padded.json''] None)
   \<and> final (projr (merge_files stub_builtins sample_fs init_merger
            [''combined.json'', ''extra.json'', ''combined.json'', ''padded.json''] None))
     = final (projr (merge_files stub_builtins sample_fs init_merger
            [''combined.json'', ''extra.json'', ''padded.json''] None))
   \<and> combined_data (projr (merge_files stub_builtins sample_fs init_merger
            [''combined.json'', ''extra.json'', ''combined.json'', ''padded.json''] None))
     = combined_data (projr (merge_files stub_builtins sample_fs init_merger
            [''combined.json'', ''extra.json'', ''padded.json''] None))
   \<and> total_duplicates_removed (summary (projr (merge_files stub_builtins sample_fs init_merger
            [''combined.json'', ''extra.json'', ''combined.json'', ''padded.json''] None))) = 3"
proof -
  let ?twice = "merge_files stub_builtins sample_fs init_merger
            [''combined.json'', ''extra.json'', ''combined.json'', ''padded.json''] None"
  let ?once = "merge_files stub_builtins sample_fs init_merger
            [''combined.json'', ''extra.json'', ''padded.json''] None"
  have ok: "\<not> isl ?twice" by code_simp
  have dups: "total_duplicates_removed (summary (projr ?twice)) = 3" by code_simp
  from C5_repeated_file[where B = stub_builtins and fs = sample_fs and xs = "[]"
      and p = "''combined.json''" and ys = "[''extra.json'']" and zs = "[''padded.json'']"
      and filter_sentiment = None]
  have "(\<exists>e. ?twice = Inl e \<and> ?once = Inl e)
      \<or> (\<exists>twice once. ?twice = Inr twice \<and> ?once = Inr once \<and> final twice = final once
            \<and> combined_data twice = combined_data once
            \<and> same_but_duplicates (summary twice) (summary once))"
    by simp
  with ok have "final (projr ?twice) = final (projr ?once)
      \<and> combined_data (projr ?twice) = combined_data (projr ?once)"
    by auto
  with ok dups show ?thesis by blast
qed

text \<open>
  C6 (amended). Under a filter \<open>S\<close>, every review of the returned document has a
  sentiment that is a string and equals \<open>S\<close> once both are lower-cased; the stored
  sentiment keeps the case of the input. A candidate that is not a duplicate and whose
  sentiment is a string (or absent, read as the empty string) that differs from \<open>S\<close>
  after lower-casing is counted as filtered out, without an error. Nothing is said of a
  sentiment that is not a string.
\<close>

theorem C6_sentiment_filter:
  "(S \<noteq> [] \<and> merge_files B fs init_merger json_files (Some S) = Inr res \<longrightarrow>
      (\<forall>r\<in>set (output_reviews (combined_data res)).
         \<exists>s. map_of r ''sentiment'' = Some (JStr s) \<and> lower s = lower S))
   \<and> (S \<noteq> [] \<and> \<not> fst (is_duplicate_review B self (review_text_of review))
        \<and> get_or review ''sentiment'' (JStr []) = JStr s' \<and> lower s' \<noteq> lower S \<longrightarrow>
        process_review B (Some S) pid (self, t) review
          = Inr (self\<lparr>seen_review_texts :=
                        insert (normalized B (review_text_of review)) (seen_review_texts self)\<rparr>,
                 t\<lparr>filtered_count := filtered_count t + 1\<rparr>))"
proof (intro conjI impI)
  assume a: "S \<noteq> [] \<and> merge_files B fs init_merger json_files (Some S) = Inr res"
  then obtain st where
    run: "foldM (process_file B fs (Some S))
       (init_merger, \<lparr>total_reviews_loaded = 0, total_duplicates_removed = 0, total_filtered_out = 0\<rparr>)
       json_files = Inr (st, summary res)"
    and out: "mset (output_reviews (combined_data res)) = mset (all_reviews st)"
    by (blast elim: merge_files_accepted)
  have "\<forall>r\<in>set (all_reviews st). \<exists>s. map_of r ''sentiment'' = Some (JStr s) \<and> lower s = lower S"
  proof (rule accepted_reviews_property[OF run])
    fix self r r'
    assume "sentiment_matches (Some S) r = Inr True" "sanitize_rating B r = Inr r'"
    then show "\<exists>s. map_of r' ''sentiment'' = Some (JStr s) \<and> lower s = lower S"
      using sentiment_matches_True[of S r] a sanitize_rating_other[of B r r' "''sentiment''"]
      by simp
  qed (simp add: init_merger_def)
  with mset_eq_setD[OF out]
  show "\<forall>r\<in>set (output_reviews (combined_data res)).
         \<exists>s. map_of r ''sentiment'' = Some (JStr s) \<and> lower s = lower S"
    by simp
next
  assume "S \<noteq> [] \<and> \<not> fst (is_duplicate_review B self (review_text_of review))
        \<and> get_or review ''sentiment'' (JStr []) = JStr s' \<and> lower s' \<noteq> lower S"
  then show "process_review B (Some S) pid (self, t) review
          = Inr (self\<lparr>seen_review_texts :=
                        insert (normalized B (review_text_of review)) (seen_review_texts self)\<rparr>,
                 t\<lparr>filtered_count := filtered_count t + 1\<rparr>)"
    by (simp add: process_review_unfold sentiment_matches_def)
qed

theorem C6_sentiment_filter_witness:
  "\<not> isl (merge_files stub_builtins sample_fs init_merger [''combined.json'', ''extra.json''] (Some ''negative''))
   \<and> list_all (\<lambda>r. \<exists>s. map_of r ''sentiment'' = Some (JStr s) \<and> lower s = lower ''negative'')
        (output_reviews (combined_data (projr
          (merge_files stub_builtins sample_fs init_merger [''combined.json'', ''extra.json''] (Some ''negative'')))))
   \<and> process_review stub_builtins (Some ''negative'') (Some ''123'')
         (init_merger, \<lparr>kept_count = 0, duplicate_count = 0, filtered_count = 0\<rparr>)
         [(''review_text'', JStr ''Solid blender, would buy again''), (''sentiment'', JStr ''Positive'')]
        = Inr (init_merger\<lparr>seen_review_texts := {''solid blender, would buy again''}\<rparr>,
               \<lparr>kept_count = 0, duplicate_count = 0, filtered_count = 1\<rparr>)"
proof -
  let ?run = "merge_files stub_builtins sample_fs init_merger [''combined.json'', ''extra.json''] (Some ''negative'')"
  let ?review = "[(''review_text'', JStr ''Solid blender, would buy again''), (''sentiment'', JStr ''Positive'')]"
  have ok: "\<not> isl ?run" by code_simp
  then have run: "?run = Inr (projr ?run)" by simp
  have hyp: "''negative'' \<noteq> [] \<and> \<not> fst (is_duplicate_review stub_builtins init_merger (review_text_of ?review))
        \<and> get_or ?review ''sentiment'' (JStr []) = JStr ''Positive'' \<and> lower ''Positive'' \<noteq> lower ''negative''"
    by code_simp
  note inst = C6_sentiment_filter[where B = stub_builtins and fs = sample_fs
      and json_files = "[''combined.json'', ''extra.json'']" and S = "''negative''"
      and res = "projr ?run" and review = ?review and s' = "''Positive''"
      and pid = "Some ''123''" and self = init_merger
      and t = "\<lparr>kept_count = 0, duplicate_count = 0, filtered_count = 0\<rparr>"]
  from inst run have "\<forall>r\<in>set (output_reviews (combined_data (projr ?run))).
         \<exists>s. map_of r ''sentiment'' = Some (JStr s) \<and> lower s = lower ''negative''"
    by blast
  then have A: "list_all (\<lambda>r. \<exists>s. map_of r ''sentiment'' = Some (JStr s) \<and> lower s = lower ''negative'')
        (output_reviews (combined_data (projr ?run)))"
    by (simp add: list_all_iff)
  from inst hyp have "process_review stub_builtins (Some ''negative'') (Some ''123'')
         (init_merger, \<lparr>kept_count = 0, duplicate_count = 0, filtered_count = 0\<rparr>) ?review
        = Inr (init_merger\<lparr>seen_review_texts :=
                        insert (normalized stub_builtins (review_text_of ?review)) (seen_review_texts init_merger)\<rparr>,
                 \<lparr>kept_count = 0, duplicate_count = 0, filtered_count = 0\<rparr>
                   \<lparr>filtered_count := filtered_count \<lparr>kept_count = 0, duplicate_count = 0, filtered_count = 0\<rparr> + 1\<rparr>)"
    by blast
  moreover have "normalized stub_builtins (review_text_of ?review) = ''solid blender, would buy again''"
    by code_simp
  ultimately have B: "process_review stub_builtins (Some ''negative'') (Some ''123'')
         (init_merger, \<lparr>kept_count = 0, duplicate_count = 0, filtered_count = 0\<rparr>) ?review
        = Inr (init_merger\<lparr>seen_review_texts := {''solid blender, would buy again''}\<rparr>,
               \<lparr>kept_count = 0, duplicate_count = 0, filtered_count = 1\<rparr>)"
    by (simp add: init_merger_def)
  from ok A B show ?thesis by blast
qed

text \<open>
  Only a local copy of the sentiment is lower-cased (lines 175-176) and the review is
  stored as it came (line 194): under the filter \<^verbatim>\<open>negative\<close> the returned review
  still reads \<^verbatim>\<open>NEGATIVE\<close>.
\<close>

theorem C6_counterexample:
  "\<not> isl (merge_files stub_builtins sample_fs init_merger [''combined.json'', ''extra.json'']
            (Some ''negative''))
   \<and> map (\<lambda>r. map_of r ''sentiment'')
        (output_reviews (combined_data (projr
           (merge_files stub_builtins sample_fs init_merger [''combined.json'', ''extra.json'']
              (Some ''negative'')))))
     = [Some (JStr ''NEGATIVE'')]"
  by code_simp

text \<open>
  C7. An integer rating too large for a float (here \<open>10 ^ 400\<close>) makes \<^verbatim>\<open>float()\<close>
  raise OverflowError, which the handler of line 190 does not catch: the run is aborted
  instead of the rating being set to null. For the other ratings the check does what
  its comment says, see \<open>sanitize_rating_cases\<close>.
\<close>

theorem C7_huge_rating_raises:
  "merge_files stub_builtins sample_fs init_merger [''combined.json'', ''huge_rating.json''] None
     = Inl OverflowError"
  by code_simp

text \<open>
  C8. One accepted review with rating 0: the rating contributes to the mean, the mean
  is 0.0, and \<^verbatim>\<open>round(avg_rating, 2) if avg_rating else None\<close> reports \<open>None\<close>.
\<close>

theorem C8_zero_mean_is_none:
  "map_sum id (\<lambda>res. (present_values ''rating'' (all_reviews (final res)),
                       average_rating (statistics (metadata (combined_data res)))))
     (merge_files stub_builtins sample_fs init_merger [''zero_rating.json''] None)
   = Inr ([JFloat (Fin 0)], None)"
  by code_simp

text \<open>
  C9. In the returned document every product has a product id, the ids are pairwise
  distinct, and every accepted review is in the review list of exactly one product.
\<close>

theorem C9_product_identity:
  assumes "merge_files B fs init_merger json_files filter_sentiment = Inr res"
  shows "(\<forall>p\<in>set (products (combined_data res)). product_id p \<noteq> None)
       \<and> distinct (map product_id (products (combined_data res)))
       \<and> (\<forall>r\<in>set (all_reviews (final res)).
            \<exists>!p. p \<in> set (products (combined_data res)) \<and> r \<in> set (reviews p))"
proof -
  from assms obtain st where
    run: "foldM (process_file B fs filter_sentiment)
       (init_merger, \<lparr>total_reviews_loaded = 0, total_duplicates_removed = 0, total_filtered_out = 0\<rparr>)
       json_files = Inr (st, summary res)"
    and fin: "all_reviews (final res) = all_reviews st"
    and prods: "products (combined_data res) = map snd (product_map st)"
    and out: "mset (output_reviews (combined_data res)) = mset (all_reviews st)"
    by (rule merge_files_accepted)
  have keys: "distinct (map fst (product_map st))"
    and ids: "\<forall>kp\<in>set (product_map st). product_id (snd kp) = fst kp \<and> str_truthy (fst kp)"
    by (rule product_keys_invariant[OF run]; simp add: init_merger_def)+
  have "map product_id (products (combined_data res)) = map fst (product_map st)"
    using ids by (simp add: prods)
  with keys have A: "distinct (map product_id (products (combined_data res)))" by simp
  have B: "\<forall>p\<in>set (products (combined_data res)). product_id p \<noteq> None"
    using ids by (fastforce simp: prods str_truthy_def split: option.splits)
  have "distinct (map (\<lambda>r. normalized B (review_text_of r)) (all_reviews st))"
    by (rule accepted_texts_distinct(1)[OF run]) (simp_all add: init_merger_def)
  then have "distinct (all_reviews st)" by (simp add: distinct_map)
  with mset_eq_imp_distinct_iff[OF out]
  have d: "distinct (concat (map reviews (products (combined_data res))))"
    by (simp add: output_reviews_def)
  have C: "\<exists>!p. p \<in> set (products (combined_data res)) \<and> r \<in> set (reviews p)"
    if "r \<in> set (all_reviews (final res))" for r
  proof -
    from that fin mset_eq_setD[OF out]
    have "r \<in> set (concat (map reviews (products (combined_data res))))"
      by (simp add: output_reviews_def)
    then obtain p where "p \<in> set (products (combined_data res))" "r \<in> set (reviews p)" by auto
    then show ?thesis
      using concat_owner_unique[OF d] by blast
  qed
  from A B C show ?thesis by blast
qed

theorem C9_product_identity_witness:
  "\<not> isl (merge_files stub_builtins sample_fs init_merger
            [''combined.json'', ''extra.json'', ''padded.json''] None)
   \<and> list_all (\<lambda>p. product_id p \<noteq> None)
        (products (combined_data (projr (merge_files stub_builtins sample_fs init_merger
            [''combined.json'', ''extra.json'', ''padded.json''] None))))
   \<and> distinct (map product_id (products (combined_data (projr (merge_files stub_builtins sample_fs init_merger
            [''combined.json'', ''extra.json'', ''padded.json''] None)))))
   \<and> list_all (\<lambda>r. \<exists>!p. p \<in> set (products (combined_data (projr (merge_files stub_builtins sample_fs
            init_merger [''combined.json'', ''extra.json'', ''padded.json''] None)))) \<and> r \<in> set (reviews p))
        (all_reviews (final (projr (merge_files stub_builtins sample_fs init_merger
            [''combined.json'', ''extra.json'', ''padded.json''] None))))"
proof -
  let ?run = "merge_files stub_builtins sample_fs init_merger
            [''combined.json'', ''extra.json'', ''padded.json''] None"
  have ok: "\<not> isl ?run" by code_simp
  then have "?run = Inr (projr ?run)" by simp
  from C9_product_identity[OF this] ok show ?thesis
    unfolding list_all_iff by blast
qed

text \<open>
  C10. The duplicate check runs first and records the normalized text of a candidate
  that the sentiment filter then rejects; and there is a run under a filter in which the
  second review matches the filter, has the normalized text of the rejected first one,
  and is dropped as a duplicate, so that no review is returned.
\<close>

theorem C10_dedup_before_filter:
  "(\<not> fst (is_duplicate_review B self (review_text_of review))
      \<and> sentiment_matches filter_sentiment review = Inr False \<longrightarrow>
      process_review B filter_sentiment pid (self, t) review
        = Inr (self\<lparr>seen_review_texts :=
                      insert (normalized B (review_text_of review)) (seen_review_texts self)\<rparr>,
               t\<lparr>filtered_count := filtered_count t + 1\<rparr>))
   \<and> (\<exists>fs path S first second.
        S \<noteq> [] \<and> fs path = Some (JArr [JObj first, JObj second])
        \<and> sentiment_matches (Some S) first = Inr False
        \<and> sentiment_matches (Some S) second = Inr True
        \<and> normalized B (review_text_of first) = normalized B (review_text_of second)
        \<and> map_sum id (\<lambda>res. (output_reviews (combined_data res), all_reviews (final res), summary res))
            (merge_files B fs init_merger [path] (Some S))
          = Inr ([], [], \<lparr>total_reviews_loaded = 2, total_duplicates_removed = 1, total_filtered_out = 1\<rparr>))"
proof (intro conjI impI)
  assume "\<not> fst (is_duplicate_review B self (review_text_of review))
      \<and> sentiment_matches filter_sentiment review = Inr False"
  then show "process_review B filter_sentiment pid (self, t) review
        = Inr (self\<lparr>seen_review_texts :=
                      insert (normalized B (review_text_of review)) (seen_review_texts self)\<rparr>,
               t\<lparr>filtered_count := filtered_count t + 1\<rparr>)"
    by (simp add: process_review_unfold)
next
  let ?first = "[(''review_text'', JStr ''Great product indeed''), (''sentiment'', JStr ''negative'')]"
  let ?second = "[(''review_text'', JStr ''great product indeed ''), (''sentiment'', JStr ''Positive'')]"
  have "''positive'' \<noteq> [] \<and> sample_fs ''sentiments.json'' = Some (JArr [JObj ?first, JObj ?second])
        \<and> sentiment_matches (Some ''positive'') ?first = Inr False
        \<and> sentiment_matches (Some ''positive'') ?second = Inr True
        \<and> normalized B (review_text_of ?first) = normalized B (review_text_of ?second)
        \<and> map_sum id (\<lambda>res. (output_reviews (combined_data res), all_reviews (final res), summary res))
            (merge_files B sample_fs init_merger [''sentiments.json''] (Some ''positive''))
          = Inr ([], [], \<lparr>total_reviews_loaded = 2, total_duplicates_removed = 1, total_filtered_out = 1\<rparr>)"
    by code_simp
  then show "\<exists>fs path S first second.
        S \<noteq> [] \<and> fs path = Some (JArr [JObj first, JObj second])
        \<and> sentiment_matches (Some S) first = Inr False
        \<and> sentiment_matches (Some S) second = Inr True
        \<and> normalized B (review_text_of first) = normalized B (review_text_of second)
        \<and> map_sum id (\<lambda>res. (output_reviews (combined_data res), all_reviews (final res), summary res))
            (merge_files B fs init_merger [path] (Some S))
          = Inr ([], [], \<lparr>total_reviews_loaded = 2, total_duplicates_removed = 1, total_filtered_out = 1\<rparr>)"
    by blast
qed

theorem C10_dedup_before_filter_witness:
  "\<not> fst (is_duplicate_review stub_builtins init_merger
        (review_text_of [(''review_text'', JStr ''Great product indeed''), (''sentiment'', JStr ''negative'')]))
   \<and> sentiment_matches (Some ''positive'')
        [(''review_text'', JStr ''Great product indeed''), (''sentiment'', JStr ''negative'')] = Inr False
   \<and> process_review stub_builtins (Some ''positive'') (Some ''GROUP_sentiments'')
        (init_merger, \<lparr>kept_count = 0, duplicate_count = 0, filtered_count = 0\<rparr>)
        [(''review_text'', JStr ''Great product indeed''), (''sentiment'', JStr ''negative'')]
      = Inr (init_merger\<lparr>seen_review_texts := {''great product indeed''}\<rparr>,
             \<lparr>kept_count = 0, duplicate_count = 0, filtered_count = 1\<rparr>)"
proof -
  let ?review = "[(''review_text'', JStr ''Great product indeed''), (''sentiment'', JStr ''negative'')]"
  have hyp: "\<not> fst (is_duplicate_review stub_builtins init_merger (review_text_of ?review))
      \<and> sentiment_matches (Some ''positive'') ?review = Inr False"
    by code_simp
  note inst = C10_dedup_before_filter[where B = stub_builtins and self = init_merger
      and review = ?review and filter_sentiment = "Some ''positive''" and pid = "Some ''GROUP_sentiments''"
      and t = "\<lparr>kept_count = 0, duplicate_count = 0, filtered_count = 0\<rparr>"]
  from inst hyp have "process_review stub_builtins (Some ''positive'') (Some ''GROUP_sentiments'')
        (init_merger, \<lparr>kept_count = 0, duplicate_count = 0, filtered_count = 0\<rparr>) ?review
      = Inr (init_merger\<lparr>seen_review_texts :=
                      insert (normalized stub_builtins (review_text_of ?review)) (seen_review_texts init_merger)\<rparr>,
             \<lparr>kept_count = 0, duplicate_count = 0, filtered_count = 0\<rparr>
               \<lparr>filtered_count := filtered_count \<lparr>kept_count = 0, duplicate_count = 0, filtered_count = 0\<rparr> + 1\<rparr>)"
    by blast
  moreover have "normalized stub_builtins (review_text_of ?review) = ''great product indeed''"
    by code_simp
  ultimately have "process_review stub_builtins (Some ''positive'') (Some ''GROUP_sentiments'')
        (init_merger, \<lparr>kept_count = 0, duplicate_count = 0, filtered_count = 0\<rparr>) ?review
      = Inr (init_merger\<lparr>seen_review_texts := {''great product indeed''}\<rparr>,
             \<lparr>kept_count = 0, duplicate_count = 0, filtered_count = 1\<rparr>)"
    by (simp add: init_merger_def)
  with hyp show ?thesis by blast
qed

end
